theory Spec2Isabelle
  imports Main
begin

section \<open>JavaScript strings and arrays\<close>

text \<open>
  A JavaScript string is a sequence of UTF-16 code units. A code unit is modelled as a
  natural number and a string as a list of them, so that \<open>trim\<close>, \<open>endsWith\<close> and
  the regular expressions see exactly the units the engine sees (the closing typographic
  quotation mark is the single unit U+201D). \<open>js\<close> reads an ASCII literal.
\<close>

type_synonym jstring = "nat list"

definition js :: "string \<Rightarrow> jstring" where
  "js s = map of_char s"

text \<open>\<open>String.prototype.split\<close> with a one-unit separator: never an empty array.\<close>

fun split :: "nat \<Rightarrow> jstring \<Rightarrow> jstring list" where
  "split sep [] = [[]]"
| "split sep (c # cs) =
     (if c = sep then [] # split sep cs
      else (case split sep cs of
              [] \<Rightarrow> [[c]]
            | w # ws \<Rightarrow> (c # w) # ws))"

text \<open>\<open>rulesText.split("\r")\<close>: the line separator is the carriage return, unit 13.\<close>

definition splitCR :: "jstring \<Rightarrow> jstring list" where
  "splitCR rulesText = split 13 rulesText"

text \<open>
  The units \<open>String.prototype.trim\<close> strips: ECMAScript's WhiteSpace and LineTerminator.
\<close>

definition isWhiteSpace :: "nat \<Rightarrow> bool" where
  "isWhiteSpace c =
     (c = 9 \<or> c = 10 \<or> c = 11 \<or> c = 12 \<or> c = 13 \<or> c = 32 \<or> c = 160 \<or> c = 5760
      \<or> (8192 \<le> c \<and> c \<le> 8202) \<or> c = 8232 \<or> c = 8233 \<or> c = 8239 \<or> c = 8287
      \<or> c = 12288 \<or> c = 65279)"

definition trim :: "jstring \<Rightarrow> jstring" where
  "trim s = rev (dropWhile isWhiteSpace (rev (dropWhile isWhiteSpace s)))"

definition endsWith :: "jstring \<Rightarrow> jstring \<Rightarrow> bool" where
  "endsWith s suf = (length suf \<le> length s \<and> drop (length s - length suf) s = suf)"

fun includesStr :: "jstring \<Rightarrow> jstring \<Rightarrow> bool" where
  "includesStr [] sub = (sub = [])"
| "includesStr (c # cs) sub = (take (length sub) (c # cs) = sub \<or> includesStr cs sub)"

text \<open>
  \<open>Array.prototype.indexOf(x, fromIndex)\<close>: a negative \<open>fromIndex\<close> counts from the
  end (and is clamped at 0); the result is \<open>-1\<close> when no element from there on equals
  \<open>x\<close>. \<open>findIndex\<close> is the same search under a predicate.
\<close>

fun findIndexFrom :: "('a \<Rightarrow> bool) \<Rightarrow> 'a list \<Rightarrow> int \<Rightarrow> int" where
  "findIndexFrom p [] k = -1"
| "findIndexFrom p (x # xs) k = (if p x then k else findIndexFrom p xs (k + 1))"

definition findIndex :: "('a \<Rightarrow> bool) \<Rightarrow> 'a list \<Rightarrow> int" where
  "findIndex p xs = findIndexFrom p xs 0"

definition indexOf :: "'a list \<Rightarrow> 'a \<Rightarrow> int" where
  "indexOf xs x = findIndex (\<lambda>y. y = x) xs"

definition indexOfFrom :: "'a list \<Rightarrow> 'a \<Rightarrow> int \<Rightarrow> int" where
  "indexOfFrom xs x fromIndex =
     (let len = int (length xs);
          k = (if 0 \<le> fromIndex then fromIndex else max (len + fromIndex) 0)
      in findIndexFrom (\<lambda>y. y = x) (drop (nat k) xs) k)"

text \<open>
  \<open>Array.prototype.splice(start, deleteCount)\<close> with no inserted items, as the array it
  leaves behind: a negative \<open>start\<close> counts from the end, and the count is clamped to
  what is there.
\<close>

definition spliceJs :: "'a list \<Rightarrow> int \<Rightarrow> int \<Rightarrow> 'a list" where
  "spliceJs xs start deleteCount =
     (let len = int (length xs);
          actualStart = (if start < 0 then max (len + start) 0 else min start len);
          actualDeleteCount = min (max deleteCount 0) (len - actualStart)
      in take (nat actualStart) xs @ drop (nat (actualStart + actualDeleteCount)) xs)"

text \<open>\<open>xs[i]\<close>: \<open>undefined\<close> (here \<open>None\<close>) outside the array.\<close>

definition at :: "'a list \<Rightarrow> int \<Rightarrow> 'a option" where
  "at xs i = (if 0 \<le> i \<and> i < int (length xs) then Some (xs ! nat i) else None)"

section \<open>The four line patterns of parseRules\<close>

definition isDigit :: "nat \<Rightarrow> bool" where
  "isDigit c = (48 \<le> c \<and> c \<le> 57)"

definition isUpper :: "nat \<Rightarrow> bool" where
  "isUpper c = (65 \<le> c \<and> c \<le> 90)"

definition isLower :: "nat \<Rightarrow> bool" where
  "isLower c = (97 \<le> c \<and> c \<le> 122)"

text \<open>The units the regular expression dot refuses: the line terminators.\<close>

definition isLineTerminator :: "nat \<Rightarrow> bool" where
  "isLineTerminator c = (c = 10 \<or> c = 13 \<or> c = 8232 \<or> c = 8233)"

text \<open>\<open>(.+)$\<close>: one or more units up to the end of the input, none a line terminator.\<close>

definition dotPlus :: "jstring \<Rightarrow> bool" where
  "dotPlus s = (s \<noteq> [] \<and> list_all (\<lambda>c. \<not> isLineTerminator c) s)"

text \<open>
  The alternatives of a title word. In the category pattern a word is
  \<open>[A-Z][a-z,]+|of|a|and\<close>, in the subcategory pattern \<open>[A-Z][a-z]+|of|a\<close>.
\<close>

definition categoryWord :: "jstring \<Rightarrow> bool" where
  "categoryWord w =
     ((case w of
         [] \<Rightarrow> False
       | c # cs \<Rightarrow> isUpper c \<and> cs \<noteq> [] \<and> list_all (\<lambda>x. isLower x \<or> x = 44) cs)
      \<or> w = js ''of'' \<or> w = js ''a'' \<or> w = js ''and'')"

definition subcategoryWord :: "jstring \<Rightarrow> bool" where
  "subcategoryWord w =
     ((case w of
         [] \<Rightarrow> False
       | c # cs \<Rightarrow> isUpper c \<and> cs \<noteq> [] \<and> list_all isLower cs)
      \<or> w = js ''of'' \<or> w = js ''a'')"

text \<open>
  \<open>((?: word)+)$\<close>: one or more words up to the end of the input, each after exactly one
  space. No alternative of a word holds a space, so the words are the pieces between the
  spaces, and the piece before the first space is empty.
\<close>

definition titlePhrase :: "(jstring \<Rightarrow> bool) \<Rightarrow> jstring \<Rightarrow> bool" where
  "titlePhrase word s =
     (case split 32 s of
        [] \<Rightarrow> False
      | p # ws \<Rightarrow> p = [] \<and> ws \<noteq> [] \<and> list_all word ws)"

text \<open>
  Each matcher returns the two capture groups of its pattern, or \<open>None\<close> for \<open>null\<close>.
  \<open>\d\d+\<close> is followed by a unit that is no digit, so it is the longest run of digits.

  \<^verbatim>\<open>/^(\d)\.((?: (?:[A-Z][a-z,]+|of|a|and))+)$/\<close>
\<close>

definition categoryMatch :: "jstring \<Rightarrow> (jstring \<times> jstring) option" where
  "categoryMatch s =
     (case s of
        d # dot # rest \<Rightarrow>
          (if isDigit d \<and> dot = 46 \<and> titlePhrase categoryWord rest
           then Some ([d], rest) else None)
      | _ \<Rightarrow> None)"

text \<open>\<^verbatim>\<open>/^(\d\d+)\.((?: (?:[A-Z][a-z]+|of|a))+)$/\<close>\<close>

definition subcategoryMatch :: "jstring \<Rightarrow> (jstring \<times> jstring) option" where
  "subcategoryMatch s =
     (let ds = takeWhile isDigit s in
      case dropWhile isDigit s of
        dot # rest \<Rightarrow>
          (if 2 \<le> length ds \<and> dot = 46 \<and> titlePhrase subcategoryWord rest
           then Some (ds, rest) else None)
      | _ \<Rightarrow> None)"

text \<open>\<^verbatim>\<open>/^(\d\d+\.\d)\. (.+)$/\<close>\<close>

definition ruleMatch :: "jstring \<Rightarrow> (jstring \<times> jstring) option" where
  "ruleMatch s =
     (let ds = takeWhile isDigit s in
      case dropWhile isDigit s of
        dot # d # dot' # sp # rest \<Rightarrow>
          (if 2 \<le> length ds \<and> dot = 46 \<and> isDigit d \<and> dot' = 46 \<and> sp = 32 \<and> dotPlus rest
           then Some (ds @ [dot, d], rest) else None)
      | _ \<Rightarrow> None)"

text \<open>\<^verbatim>\<open>/^(\d\d+\.\d[a-z]) (.+)$/\<close>\<close>

definition subruleMatch :: "jstring \<Rightarrow> (jstring \<times> jstring) option" where
  "subruleMatch s =
     (let ds = takeWhile isDigit s in
      case dropWhile isDigit s of
        dot # d # l # sp # rest \<Rightarrow>
          (if 2 \<le> length ds \<and> dot = 46 \<and> isDigit d \<and> isLower l \<and> sp = 32 \<and> dotPlus rest
           then Some (ds @ [dot, d, l], rest) else None)
      | _ \<Rightarrow> None)"

section \<open>The data model (models.ts)\<close>

record Subrule =
  sr_id :: jstring
  sr_rule :: jstring

record Rule =
  r_id :: jstring
  r_rule :: jstring
  subrules :: "Subrule list"

record Subcategory =
  sc_id :: jstring
  sc_title :: jstring
  rules :: "Rule list"

record Category =
  c_id :: jstring
  c_title :: jstring
  subcategories :: "Subcategory list"

record GlossaryTerm =
  gt_term :: jstring
  meanings :: "jstring list"

text \<open>
  A JavaScript number as \<open>Date.parse\<close> returns it: \<open>NaN\<close> or a whole number of
  milliseconds. Only a number that is neither \<open>NaN\<close> nor zero is truthy.
\<close>

datatype number = NaN | Num int

record RulesObject =
  ro_rules :: "Category list"
  ro_glossary :: "GlossaryTerm list"
  effectiveDate :: number

text \<open>
  The only exception the parsing code can raise: reading a property of \<open>undefined\<close>.
  The engine's TypeError names the property that was read, and nothing else.
\<close>

datatype error = TypeError string

section \<open>parseRules\<close>

text \<open>
  \<open>lines.forEach(callback)\<close> over mutable locals: the locals are a state record that
  the callback returns updated, and an exception ends the loop.
\<close>

fun forEach :: "('s \<Rightarrow> jstring \<Rightarrow> error + 's) \<Rightarrow> jstring list \<Rightarrow> 's \<Rightarrow> error + 's" where
  "forEach f [] st = Inr st"
| "forEach f (line # lines) st =
     (case f st line of
        Inl e \<Rightarrow> Inl e
      | Inr st' \<Rightarrow> forEach f lines st')"

record RulesState =
  rulesArr :: "Category list"
  lastCategoryIndex :: int
  lastSubcategoryIndex :: int
  lastRuleIndex :: int

text \<open>The category branch: push unless the id is there, then point the cursor at the id.\<close>

definition categoryLine :: "RulesState \<Rightarrow> jstring \<Rightarrow> jstring \<Rightarrow> error + RulesState" where
  "categoryLine st ident g2 =
     (let title = trim g2;
          category = \<lparr>c_id = ident, c_title = title, subcategories = []\<rparr>;
          categoryExists = list_ex (\<lambda>cat. c_id cat = ident) (rulesArr st);
          arr = (if categoryExists then rulesArr st else rulesArr st @ [category])
      in Inr (st\<lparr>rulesArr := arr, lastCategoryIndex := indexOf (map c_id arr) ident\<rparr>))"

text \<open>The subcategory branch works inside \<open>rulesArr[lastCategoryIndex]\<close>.\<close>

definition subcategoryLine :: "RulesState \<Rightarrow> jstring \<Rightarrow> jstring \<Rightarrow> error + RulesState" where
  "subcategoryLine st ident g2 =
     (let title = trim g2;
          subcategory = \<lparr>sc_id = ident, sc_title = title, rules = []\<rparr>
      in case at (rulesArr st) (lastCategoryIndex st) of
           None \<Rightarrow> Inl (TypeError ''subcategories'')
         | Some cat \<Rightarrow>
             (let subcategoryExists = list_ex (\<lambda>subcat. sc_id subcat = ident) (subcategories cat);
                  subs = (if subcategoryExists then subcategories cat
                          else subcategories cat @ [subcategory])
              in Inr (st\<lparr>rulesArr := (rulesArr st)
                             [nat (lastCategoryIndex st) := cat\<lparr>subcategories := subs\<rparr>],
                           lastSubcategoryIndex := indexOf (map sc_id subs) ident\<rparr>)))"

text \<open>
  The rule branch pushes without looking for the id, into
  \<open>rulesArr[lastCategoryIndex].subcategories[lastSubcategoryIndex].rules\<close>.
\<close>

definition ruleLine :: "RulesState \<Rightarrow> jstring \<Rightarrow> jstring \<Rightarrow> error + RulesState" where
  "ruleLine st ident rule =
     (case at (rulesArr st) (lastCategoryIndex st) of
        None \<Rightarrow> Inl (TypeError ''subcategories'')
      | Some cat \<Rightarrow>
          (case at (subcategories cat) (lastSubcategoryIndex st) of
             None \<Rightarrow> Inl (TypeError ''rules'')
           | Some subcat \<Rightarrow>
               (let rs = rules subcat @ [\<lparr>r_id = ident, r_rule = rule, subrules = []\<rparr>];
                    subs = (subcategories cat)
                             [nat (lastSubcategoryIndex st) := subcat\<lparr>rules := rs\<rparr>]
                in Inr (st\<lparr>rulesArr := (rulesArr st)
                               [nat (lastCategoryIndex st) := cat\<lparr>subcategories := subs\<rparr>],
                             lastRuleIndex := indexOf (map r_id rs) ident\<rparr>))))"

text \<open>The subrule branch pushes into the \<open>subrules\<close> of the rule under the three cursors.\<close>

definition subruleLine :: "RulesState \<Rightarrow> jstring \<Rightarrow> jstring \<Rightarrow> error + RulesState" where
  "subruleLine st ident rule =
     (case at (rulesArr st) (lastCategoryIndex st) of
        None \<Rightarrow> Inl (TypeError ''subcategories'')
      | Some cat \<Rightarrow>
          (case at (subcategories cat) (lastSubcategoryIndex st) of
             None \<Rightarrow> Inl (TypeError ''rules'')
           | Some subcat \<Rightarrow>
               (case at (rules subcat) (lastRuleIndex st) of
                  None \<Rightarrow> Inl (TypeError ''subrules'')
                | Some r \<Rightarrow>
                    (let srs = subrules r @ [\<lparr>sr_id = ident, sr_rule = rule\<rparr>];
                         rs = (rules subcat)[nat (lastRuleIndex st) := r\<lparr>subrules := srs\<rparr>];
                         subs = (subcategories cat)
                                  [nat (lastSubcategoryIndex st) := subcat\<lparr>rules := rs\<rparr>]
                     in Inr (st\<lparr>rulesArr := (rulesArr st)
                                    [nat (lastCategoryIndex st) :=
                                       cat\<lparr>subcategories := subs\<rparr>]\<rparr>)))))"

text \<open>
  The callback of parseRules: an empty line returns at once, any other line is trimmed
  and tried against the patterns in the order category, subcategory, rule, subrule; a
  line none of them matches changes nothing.
\<close>

definition parseRulesLine :: "RulesState \<Rightarrow> jstring \<Rightarrow> error + RulesState" where
  "parseRulesLine st line =
     (if line = [] then Inr st
      else
        (let trimmed = trim line in
         case categoryMatch trimmed of
           Some (ident, g2) \<Rightarrow> categoryLine st ident g2
         | None \<Rightarrow>
             (case subcategoryMatch trimmed of
                Some (ident, g2) \<Rightarrow> subcategoryLine st ident g2
              | None \<Rightarrow>
                  (case ruleMatch trimmed of
                     Some (ident, rule) \<Rightarrow> ruleLine st ident rule
                   | None \<Rightarrow>
                       (case subruleMatch trimmed of
                          Some (ident, rule) \<Rightarrow> subruleLine st ident rule
                        | None \<Rightarrow> Inr st)))))"

definition initRules :: RulesState where
  "initRules = \<lparr>rulesArr = [], lastCategoryIndex = 0, lastSubcategoryIndex = 0,
                 lastRuleIndex = 0\<rparr>"

definition parseRules :: "jstring list \<Rightarrow> error + Category list" where
  "parseRules lines =
     (case forEach parseRulesLine lines initRules of
        Inl e \<Rightarrow> Inl e
      | Inr st \<Rightarrow> Inr (rulesArr st))"

section \<open>parseGlossary\<close>

record GlossaryState =
  termsArr :: "GlossaryTerm list"
  lastTermIndex :: int

text \<open>The test that makes a trimmed line a term: U+201D is unit 8221.\<close>

definition isTermLine :: "jstring \<Rightarrow> bool" where
  "isTermLine cleanLine =
     (\<not> endsWith cleanLine (js ''.'') \<and> \<not> endsWith cleanLine [8221]
      \<and> \<not> includesStr cleanLine (js ''See rule''))"

definition parseGlossaryLine :: "GlossaryState \<Rightarrow> jstring \<Rightarrow> error + GlossaryState" where
  "parseGlossaryLine st line =
     (let cleanLine = trim line in
      if cleanLine = [] then Inr st
      else if isTermLine cleanLine then
        (let arr = termsArr st @ [\<lparr>gt_term = cleanLine, meanings = []\<rparr>]
         in Inr \<lparr>termsArr = arr,
                 lastTermIndex = findIndex (\<lambda>t. gt_term t = cleanLine) arr\<rparr>)
      else
        (case at (termsArr st) (lastTermIndex st) of
           None \<Rightarrow> Inl (TypeError ''meanings'')
         | Some t \<Rightarrow>
             Inr (st\<lparr>termsArr := (termsArr st)
                        [nat (lastTermIndex st) := t\<lparr>meanings := meanings t @ [cleanLine]\<rparr>]\<rparr>)))"

definition initGlossary :: GlossaryState where
  "initGlossary = \<lparr>termsArr = [], lastTermIndex = 0\<rparr>"

definition parseGlossary :: "jstring list \<Rightarrow> error + GlossaryTerm list" where
  "parseGlossary lines =
     (case forEach parseGlossaryLine lines initGlossary of
        Inl e \<Rightarrow> Inl e
      | Inr st \<Rightarrow> Inr (termsArr st))"

section \<open>The section extractors\<close>

text \<open>
  getRules: the lines left after \<open>lines.splice(0, startingLine)\<close>, where
  \<open>startingLine\<close> is two past the first line equal to \<open>"Credits"\<close>.
\<close>

definition rulesLines :: "jstring \<Rightarrow> jstring list" where
  "rulesLines rulesText =
     (let lines = splitCR rulesText;
          startingLine = findIndex (\<lambda>line. line = js ''Credits'') lines + 2
      in spliceJs lines 0 startingLine)"

definition getRules :: "jstring \<Rightarrow> error + Category list" where
  "getRules rulesText = parseRules (rulesLines rulesText)"

text \<open>
  getGlossary: the heading and the credits marker are compared with their leading line
  feed (unit 10), which the split on carriage returns leaves at the head of a line.
\<close>

definition glossaryHeading :: jstring where
  "glossaryHeading = 10 # js ''Glossary''"

definition creditsMarker :: jstring where
  "creditsMarker = 10 # js ''Credits''"

definition glossaryLines :: "jstring \<Rightarrow> jstring list" where
  "glossaryLines rulesText =
     (let lines = splitCR rulesText;
          glossaryInTableOfContents = indexOf lines glossaryHeading;
          startingLine = indexOfFrom lines glossaryHeading glossaryInTableOfContents + 1;
          lines1 = spliceJs lines 0 startingLine;
          endingLine = indexOf lines1 creditsMarker
      in spliceJs lines1 endingLine (int (length lines1) - endingLine))"

definition getGlossary :: "jstring \<Rightarrow> error + GlossaryTerm list" where
  "getGlossary rulesText = parseGlossary (glossaryLines rulesText)"

section \<open>getEffectiveDate and getRulesObject\<close>

text \<open>
  The pattern is built from the string \<open>'These rules are effective as of (.+)\.'\<close>, in
  which \<open>\.\<close> is just a dot: the expression is \<open>These rules are effective as of (.+).\<close>,
  not anchored. At the leftmost place where the sentence starts and at least two units
  that are no line terminators follow, the greedy group takes all of them but the last.
\<close>

definition effectivePrefix :: jstring where
  "effectivePrefix = js ''These rules are effective as of ''"

fun effectiveMatch :: "jstring \<Rightarrow> jstring option" where
  "effectiveMatch [] = None"
| "effectiveMatch (c # cs) =
     (let run = takeWhile (\<lambda>x. \<not> isLineTerminator x) (drop (length effectivePrefix) (c # cs))
      in if take (length effectivePrefix) (c # cs) = effectivePrefix \<and> 2 \<le> length run
         then Some (butlast run)
         else effectiveMatch cs)"

text \<open>
  \<open>Date.parse\<close> belongs to the host, not to this repository: it is a parameter.
  The result is \<open>None\<close> for \<open>undefined\<close>.
\<close>

definition getEffectiveDate :: "(jstring \<Rightarrow> number) \<Rightarrow> jstring \<Rightarrow> error + number option" where
  "getEffectiveDate dateParse rulesText =
     (case at (splitCR rulesText) 2 of
        None \<Rightarrow> Inl (TypeError ''match'')
      | Some dateLine \<Rightarrow>
          (case effectiveMatch dateLine of
             Some m \<Rightarrow> Inr (Some (dateParse m))
           | None \<Rightarrow> Inr None))"

fun truthy :: "number option \<Rightarrow> bool" where
  "truthy None = False"
| "truthy (Some NaN) = False"
| "truthy (Some (Num n)) = (n \<noteq> 0)"

text \<open>
  getRulesObject, given what \<open>getRulesText\<close> resolved to (\<open>None\<close> for \<open>undefined\<close>;
  the empty string is falsy too). The three extractors run in the source's order, and an
  exception of one of them is the exception of the whole.
\<close>

definition getRulesObject ::
  "(jstring \<Rightarrow> number) \<Rightarrow> jstring option \<Rightarrow> error + RulesObject option" where
  "getRulesObject dateParse fetched =
     (case fetched of
        None \<Rightarrow> Inr None
      | Some rulesText \<Rightarrow>
          (if rulesText = [] then Inr None
           else
             (case getRules rulesText of
                Inl e \<Rightarrow> Inl e
              | Inr rs \<Rightarrow>
                  (case getGlossary rulesText of
                     Inl e \<Rightarrow> Inl e
                   | Inr gl \<Rightarrow>
                       (case getEffectiveDate dateParse rulesText of
                          Inl e \<Rightarrow> Inl e
                        | Inr d \<Rightarrow>
                            (if truthy d
                             then Inr (Some \<lparr>ro_rules = rs, ro_glossary = gl,
                                             effectiveDate = the d\<rparr>)
                             else Inr None))))))"

section \<open>Specification-side definitions\<close>

text \<open>
  The four levels, and the callback of parseRules with the order of its four tests as a
  parameter: \<open>parseRulesLineIn\<close> tries the patterns in the order given and runs the
  branch of the first that matches.
\<close>

datatype level = CategoryL | SubcategoryL | RuleL | SubruleL

fun matchesLevel :: "level \<Rightarrow> jstring \<Rightarrow> bool" where
  "matchesLevel CategoryL t = (categoryMatch t \<noteq> None)"
| "matchesLevel SubcategoryL t = (subcategoryMatch t \<noteq> None)"
| "matchesLevel RuleL t = (ruleMatch t \<noteq> None)"
| "matchesLevel SubruleL t = (subruleMatch t \<noteq> None)"

fun tryLevel :: "level \<Rightarrow> RulesState \<Rightarrow> jstring \<Rightarrow> (error + RulesState) option" where
  "tryLevel CategoryL st t =
     map_option (\<lambda>(ident, g2). categoryLine st ident g2) (categoryMatch t)"
| "tryLevel SubcategoryL st t =
     map_option (\<lambda>(ident, g2). subcategoryLine st ident g2) (subcategoryMatch t)"
| "tryLevel RuleL st t =
     map_option (\<lambda>(ident, rule). ruleLine st ident rule) (ruleMatch t)"
| "tryLevel SubruleL st t =
     map_option (\<lambda>(ident, rule). subruleLine st ident rule) (subruleMatch t)"

fun firstOf :: "level list \<Rightarrow> RulesState \<Rightarrow> jstring \<Rightarrow> error + RulesState" where
  "firstOf [] st t = Inr st"
| "firstOf (l # ls) st t =
     (case tryLevel l st t of
        Some r \<Rightarrow> r
      | None \<Rightarrow> firstOf ls st t)"

definition parseRulesLineIn :: "level list \<Rightarrow> RulesState \<Rightarrow> jstring \<Rightarrow> error + RulesState" where
  "parseRulesLineIn order st line =
     (if line = [] then Inr st else firstOf order st (trim line))"

text \<open>A document from its lines, joined by carriage returns.\<close>

fun joinCR :: "jstring list \<Rightarrow> jstring" where
  "joinCR [] = []"
| "joinCR [l] = l"
| "joinCR (l # ls) = l @ 13 # joinCR ls"

text \<open>
  What getGlossary keeps of the lines, said with list functions: the lines after the
  first heading (all of them when there is none), then up to the first credits marker
  (all but the last when there is none).
\<close>

definition afterFirstHeading :: "jstring list \<Rightarrow> jstring list" where
  "afterFirstHeading lines =
     (if glossaryHeading \<in> set lines
      then tl (dropWhile (\<lambda>l. l \<noteq> glossaryHeading) lines) else lines)"

definition upToCredits :: "jstring list \<Rightarrow> jstring list" where
  "upToCredits lines =
     (if creditsMarker \<in> set lines
      then takeWhile (\<lambda>l. l \<noteq> creditsMarker) lines else butlast lines)"

text \<open>
  The epoch timestamp of a calendar date: the days from 1970-01-01 to the day
  \<open>y\<close>-\<open>m\<close>-\<open>d\<close> of the proleptic Gregorian calendar, and the milliseconds
  from the epoch to its midnight in UTC. This is calendar arithmetic only; the host's
  \<open>Date.parse\<close> stays a parameter of getEffectiveDate.
\<close>

definition daysFromCivil :: "int \<Rightarrow> int \<Rightarrow> int \<Rightarrow> int" where
  "daysFromCivil y m d =
     (let y' = (if m \<le> 2 then y - 1 else y);
          era = y' div 400;
          yoe = y' - era * 400;
          doy = (153 * (if 2 < m then m - 3 else m + 9) + 2) div 5 + d - 1;
          doe = yoe * 365 + yoe div 4 - yoe div 100 + doy
      in era * 146097 + doe - 719468)"

definition utcMidnight :: "int \<Rightarrow> int \<Rightarrow> int \<Rightarrow> int" where
  "utcMidnight y m d = daysFromCivil y m d * 86400000"

text \<open>
  How the two parsers see a line. parseRules ignores an empty line and a line that matches
  no pattern; a child line is one of the levels Subcategory, Rule, Subrule. parseGlossary
  skips a line that trims to nothing; any other line that is no term is a continuation.
\<close>

definition ignoredLine :: "jstring \<Rightarrow> bool" where
  "ignoredLine line =
     (line = [] \<or> (categoryMatch (trim line) = None \<and> subcategoryMatch (trim line) = None
        \<and> ruleMatch (trim line) = None \<and> subruleMatch (trim line) = None))"

definition childLine :: "jstring \<Rightarrow> bool" where
  "childLine line =
     (line \<noteq> [] \<and> categoryMatch (trim line) = None
      \<and> (subcategoryMatch (trim line) \<noteq> None \<or> ruleMatch (trim line) \<noteq> None
           \<or> subruleMatch (trim line) \<noteq> None))"

definition blankLine :: "jstring \<Rightarrow> bool" where
  "blankLine line = (trim line = [])"

definition continuationLine :: "jstring \<Rightarrow> bool" where
  "continuationLine line = (trim line \<noteq> [] \<and> \<not> isTermLine (trim line))"

text \<open>
  A term line of parseGlossary: not blank once trimmed, and passing the term test. The
  terms a list of lines holds, in order.
\<close>

definition termLine :: "jstring \<Rightarrow> bool" where
  "termLine line = (trim line \<noteq> [] \<and> isTermLine (trim line))"

definition termLines :: "jstring list \<Rightarrow> jstring list" where
  "termLines lines = map trim (filter termLine lines)"

text \<open>The grouping as the specification words it: the current term is the one appended last.\<close>

definition groupLine :: "GlossaryTerm list \<Rightarrow> jstring \<Rightarrow> GlossaryTerm list" where
  "groupLine acc line =
     (if blankLine line then acc
      else if termLine line then acc @ [\<lparr>gt_term = trim line, meanings = []\<rparr>]
      else butlast acc @ [(last acc)\<lparr>meanings := meanings (last acc) @ [trim line]\<rparr>])"

definition groupGlossary :: "jstring list \<Rightarrow> GlossaryTerm list" where
  "groupGlossary lines = foldl groupLine [] lines"

text \<open>The first line that is not blank is a continuation: no term comes before it.\<close>

definition orphanFirst :: "jstring list \<Rightarrow> bool" where
  "orphanFirst lines =
     (case dropWhile blankLine lines of
        [] \<Rightarrow> False
      | l # _ \<Rightarrow> continuationLine l)"

text \<open>
  Position \<open>k\<close> holds the first occurrence of its element. The invariant of the
  glossary loop: the cursor stands on a first occurrence, and every entry that is not
  one has no meanings.
\<close>

definition firstOccurrence :: "'a list \<Rightarrow> nat \<Rightarrow> bool" where
  "firstOccurrence ts k = (ts ! k \<notin> set (take k ts))"

definition glossaryInv :: "GlossaryState \<Rightarrow> bool" where
  "glossaryInv st =
     ((termsArr st = [] \<or>
         (0 \<le> lastTermIndex st \<and> nat (lastTermIndex st) < length (termsArr st)
          \<and> firstOccurrence (map gt_term (termsArr st)) (nat (lastTermIndex st))))
      \<and> (\<forall>k<length (termsArr st).
            firstOccurrence (map gt_term (termsArr st)) k \<or> meanings (termsArr st ! k) = []))"

text \<open>
  What the callback of parseRules makes of a line: the level of the first pattern that
  matches the trimmed line, with the two capture groups, or nothing.
\<close>

datatype lineKind =
    CategoryK jstring jstring
  | SubcategoryK jstring jstring
  | RuleK jstring jstring
  | SubruleK jstring jstring
  | IgnoredK

definition classify :: "jstring \<Rightarrow> lineKind" where
  "classify line =
     (if line = [] then IgnoredK
      else
        (let trimmed = trim line in
         case categoryMatch trimmed of
           Some (ident, g2) \<Rightarrow> CategoryK ident g2
         | None \<Rightarrow>
             (case subcategoryMatch trimmed of
                Some (ident, g2) \<Rightarrow> SubcategoryK ident g2
              | None \<Rightarrow>
                  (case ruleMatch trimmed of
                     Some (ident, rule) \<Rightarrow> RuleK ident rule
                   | None \<Rightarrow>
                       (case subruleMatch trimmed of
                          Some (ident, rule) \<Rightarrow> SubruleK ident rule
                        | None \<Rightarrow> IgnoredK)))))"

text \<open>
  The ids the three cursors of parseRules are known to stand on after a list of lines:
  the id of the last Category line; the id of the last Subcategory line, unless a
  Category line came after it; the id of the last Rule line, unless a Category or
  Subcategory line came after it. \<open>None\<close> is a cursor that was never set or is
  left over from another branch.
\<close>

type_synonym cursorIds = "jstring option \<times> jstring option \<times> jstring option"

fun cursorStep :: "cursorIds \<Rightarrow> lineKind \<Rightarrow> cursorIds" where
  "cursorStep (c, s, r) (CategoryK ident g2) = (Some ident, None, None)"
| "cursorStep (c, s, r) (SubcategoryK ident g2) = (c, Some ident, None)"
| "cursorStep (c, s, r) (RuleK ident rule) = (c, s, Some ident)"
| "cursorStep (c, s, r) (SubruleK ident rule) = (c, s, r)"
| "cursorStep (c, s, r) IgnoredK = (c, s, r)"

definition cursorIdsAfter :: "jstring list \<Rightarrow> cursorIds" where
  "cursorIdsAfter lines = foldl cursorStep (None, None, None) (map classify lines)"

definition currentCategory :: "jstring list \<Rightarrow> jstring option" where
  "currentCategory lines = fst (cursorIdsAfter lines)"

definition currentSubcategory :: "jstring list \<Rightarrow> jstring option" where
  "currentSubcategory lines = fst (snd (cursorIdsAfter lines))"

definition currentRule :: "jstring list \<Rightarrow> jstring option" where
  "currentRule lines = snd (snd (cursorIdsAfter lines))"

text \<open>Where an entity hangs in a tree, by the ids of its ancestors.\<close>

definition hasSubcategory :: "Category list \<Rightarrow> jstring \<Rightarrow> jstring \<Rightarrow> bool" where
  "hasSubcategory t ci si =
     (\<exists>c\<in>set t. c_id c = ci \<and> (\<exists>s\<in>set (subcategories c). sc_id s = si))"

definition hasRule ::
  "Category list \<Rightarrow> jstring \<Rightarrow> jstring \<Rightarrow> jstring \<Rightarrow> jstring \<Rightarrow> bool" where
  "hasRule t ci si ri txt =
     (\<exists>c\<in>set t. c_id c = ci \<and>
        (\<exists>s\<in>set (subcategories c). sc_id s = si \<and>
           (\<exists>r\<in>set (rules s). r_id r = ri \<and> r_rule r = txt)))"

definition hasSubrule ::
  "Category list \<Rightarrow> jstring \<Rightarrow> jstring \<Rightarrow> jstring \<Rightarrow> jstring \<Rightarrow> jstring \<Rightarrow> bool" where
  "hasSubrule t ci si ri xi txt =
     (\<exists>c\<in>set t. c_id c = ci \<and>
        (\<exists>s\<in>set (subcategories c). sc_id s = si \<and>
           (\<exists>r\<in>set (rules s). r_id r = ri \<and>
              (\<exists>x\<in>set (subrules r). sr_id x = xi \<and> sr_rule x = txt))))"

text \<open>The state agrees with the ids the cursors are known to stand on.\<close>

definition cursorOk :: "RulesState \<Rightarrow> cursorIds \<Rightarrow> bool" where
  "cursorOk st ids =
     (case ids of (cc, cs, cr) \<Rightarrow>
        (case cc of
           None \<Rightarrow> rulesArr st = []
         | Some ci \<Rightarrow>
             (case at (rulesArr st) (lastCategoryIndex st) of
                None \<Rightarrow> False
              | Some c \<Rightarrow> c_id c = ci \<and>
                  (case cs of
                     None \<Rightarrow> True
                   | Some si \<Rightarrow>
                       (case at (subcategories c) (lastSubcategoryIndex st) of
                          None \<Rightarrow> False
                        | Some s \<Rightarrow> sc_id s = si \<and>
                            (case cr of
                               None \<Rightarrow> True
                             | Some ri \<Rightarrow>
                                 (case at (rules s) (lastRuleIndex st) of
                                    None \<Rightarrow> False
                                  | Some r \<Rightarrow> r_id r = ri)))))))"

text \<open>
  The invariants of the loop of parseRules: ids of categories, and of the subcategories of
  a category, do not repeat; a later tree holds every entity of an earlier one, under
  the same ids; a property of every subcategory; the ids of rules and subrules stay
  within the ids of the lines read so far.
\<close>

definition dedupOk :: "Category list \<Rightarrow> bool" where
  "dedupOk t =
     (distinct (map c_id t) \<and> list_all (\<lambda>c. distinct (map sc_id (subcategories c))) t)"

definition ruleGrows :: "Rule \<Rightarrow> Rule \<Rightarrow> bool" where
  "ruleGrows r r' =
     (r_id r' = r_id r \<and> r_rule r' = r_rule r \<and> set (subrules r) \<subseteq> set (subrules r'))"

definition subcategoryGrows :: "Subcategory \<Rightarrow> Subcategory \<Rightarrow> bool" where
  "subcategoryGrows s s' =
     (sc_id s' = sc_id s \<and> (\<forall>r\<in>set (rules s). \<exists>r'\<in>set (rules s'). ruleGrows r r'))"

definition categoryGrows :: "Category \<Rightarrow> Category \<Rightarrow> bool" where
  "categoryGrows c c' =
     (c_id c' = c_id c \<and>
      (\<forall>s\<in>set (subcategories c). \<exists>s'\<in>set (subcategories c'). subcategoryGrows s s'))"

definition treeGrows :: "Category list \<Rightarrow> Category list \<Rightarrow> bool" where
  "treeGrows t t' = (\<forall>c\<in>set t. \<exists>c'\<in>set t'. categoryGrows c c')"




text \<open>The ids of the Rule lines and of the Subrule lines of the input.\<close>

definition ruleIdOf :: "jstring \<Rightarrow> jstring list" where
  "ruleIdOf line = (case classify line of RuleK ident rule \<Rightarrow> [ident] | _ \<Rightarrow> [])"

definition subruleIdOf :: "jstring \<Rightarrow> jstring list" where
  "subruleIdOf line = (case classify line of SubruleK ident rule \<Rightarrow> [ident] | _ \<Rightarrow> [])"

definition ruleIds :: "jstring list \<Rightarrow> jstring list" where
  "ruleIds lines = concat (map ruleIdOf lines)"

definition subruleIds :: "jstring list \<Rightarrow> jstring list" where
  "subruleIds lines = concat (map subruleIdOf lines)"

text \<open>A Category line; a header line, Category or Subcategory.\<close>

definition categoryLineK :: "jstring \<Rightarrow> bool" where
  "categoryLineK line = (case classify line of CategoryK ident g2 \<Rightarrow> True | _ \<Rightarrow> False)"

definition headerLineK :: "jstring \<Rightarrow> bool" where
  "headerLineK line =
     (case classify line of
        CategoryK ident g2 \<Rightarrow> True
      | SubcategoryK ident g2 \<Rightarrow> True
      | _ \<Rightarrow> False)"

section \<open>Evaluation\<close>

text \<open>The defining equations that evaluate the model on a concrete input.\<close>

lemmas ev = js_def splitCR_def isWhiteSpace_def trim_def endsWith_def findIndex_def indexOf_def
  indexOfFrom_def spliceJs_def at_def isDigit_def isUpper_def isLower_def isLineTerminator_def
  dotPlus_def categoryWord_def subcategoryWord_def titlePhrase_def categoryMatch_def
  subcategoryMatch_def ruleMatch_def subruleMatch_def categoryLine_def subcategoryLine_def
  ruleLine_def subruleLine_def parseRulesLine_def initRules_def parseRules_def isTermLine_def
  parseGlossaryLine_def initGlossary_def parseGlossary_def rulesLines_def getRules_def
  glossaryHeading_def creditsMarker_def effectivePrefix_def getEffectiveDate_def
  getRulesObject_def ignoredLine_def childLine_def blankLine_def continuationLine_def
  Let_def

section \<open>The patterns exclude each other\<close>

lemma split_head_empty: "split sep s = [] # ws \<Longrightarrow> ws \<noteq> [] \<Longrightarrow> \<exists>r. s = sep # r"
  by (cases s) (auto split: if_splits list.splits)

lemma titlePhrase_space: "titlePhrase word s \<Longrightarrow> \<exists>r. s = 32 # r"
  unfolding titlePhrase_def by (auto split: list.splits dest: split_head_empty)

lemma categoryMatch_shape:
  "categoryMatch t = Some g \<Longrightarrow> \<exists>d rest. t = d # 46 # rest \<and> isDigit d"
  unfolding categoryMatch_def by (auto split: list.splits if_splits)

lemma category_digits: "categoryMatch t = Some g \<Longrightarrow> length (takeWhile isDigit t) < 2"
  by (auto dest!: categoryMatch_shape simp: isDigit_def)

lemma subcategoryMatch_shape:
  "subcategoryMatch t = Some g \<Longrightarrow>
     2 \<le> length (takeWhile isDigit t) \<and> (\<exists>r. dropWhile isDigit t = 46 # 32 # r)"
  unfolding subcategoryMatch_def Let_def
  by (auto split: list.splits if_splits dest: titlePhrase_space)

lemma ruleMatch_shape:
  "ruleMatch t = Some g \<Longrightarrow>
     2 \<le> length (takeWhile isDigit t) \<and>
     (\<exists>d r. dropWhile isDigit t = 46 # d # 46 # r \<and> isDigit d)"
  unfolding ruleMatch_def Let_def
  by (auto split: list.splits if_splits)

lemma subruleMatch_shape:
  "subruleMatch t = Some g \<Longrightarrow>
     2 \<le> length (takeWhile isDigit t) \<and>
     (\<exists>d l r. dropWhile isDigit t = 46 # d # l # r \<and> isDigit d \<and> isLower l)"
  unfolding subruleMatch_def Let_def
  by (auto split: list.splits if_splits)

lemma matches_unique: "matchesLevel l t \<Longrightarrow> matchesLevel l' t \<Longrightarrow> l = l'"
  by (cases l; cases l')
     (auto dest!: category_digits subcategoryMatch_shape ruleMatch_shape subruleMatch_shape
           simp: isDigit_def isLower_def)

lemma tryLevel_None: "tryLevel l st t = None \<longleftrightarrow> \<not> matchesLevel l t"
  by (cases l) (simp_all del: not_None_eq)

lemma firstOf_none: "\<forall>l\<in>set order. \<not> matchesLevel l t \<Longrightarrow> firstOf order st t = Inr st"
proof (induction order)
  case Nil
  then show ?case by simp
next
  case (Cons a order)
  then have "tryLevel a st t = None" by (simp add: tryLevel_None)
  with Cons show ?case by simp
qed

lemma firstOf_the:
  "l \<in> set order \<Longrightarrow> matchesLevel l t \<Longrightarrow> firstOf order st t = the (tryLevel l st t)"
proof (induction order)
  case Nil
  then show ?case by simp
next
  case (Cons a order)
  show ?case
  proof (cases "matchesLevel a t")
    case True
    with Cons.prems have "a = l" by (auto dest: matches_unique)
    from True have "tryLevel a st t \<noteq> None" by (simp add: tryLevel_None)
    with \<open>a = l\<close> show ?thesis by auto
  next
    case False
    then have "tryLevel a st t = None" by (simp add: tryLevel_None)
    moreover from False Cons.prems have "l \<in> set order" by auto
    ultimately show ?thesis using Cons by simp
  qed
qed

lemma parseRulesLine_firstOf:
  "parseRulesLine st line = parseRulesLineIn [CategoryL, SubcategoryL, RuleL, SubruleL] st line"
  unfolding parseRulesLine_def parseRulesLineIn_def Let_def
  by (auto split: option.splits)

lemma level_UNIV: "(UNIV :: level set) = {CategoryL, SubcategoryL, RuleL, SubruleL}"
  using level.exhaust by auto

text \<open>
  Claim C9. No string matches more than one of the four patterns, so the callback of
  parseRules run with its four tests in any order that covers the four levels does what
  the source's order Category, Subcategory, Rule, Subrule does.
\<close>

theorem classification_order_irrelevant:
  "length (filter (\<lambda>l. matchesLevel l t) [CategoryL, SubcategoryL, RuleL, SubruleL]) \<le> 1
   \<and> (set order = UNIV \<longrightarrow> parseRulesLineIn order st line = parseRulesLine st line)"
proof (intro conjI impI)
  show "length (filter (\<lambda>l. matchesLevel l t) [CategoryL, SubcategoryL, RuleL, SubruleL]) \<le> 1"
    using matches_unique[of CategoryL t SubcategoryL]
      matches_unique[of CategoryL t RuleL]
      matches_unique[of CategoryL t SubruleL]
      matches_unique[of SubcategoryL t RuleL]
      matches_unique[of SubcategoryL t SubruleL]
      matches_unique[of RuleL t SubruleL]
    by auto
next
  assume all: "set order = UNIV"
  let ?code = "[CategoryL, SubcategoryL, RuleL, SubruleL]"
  have code: "set ?code = UNIV" by (simp add: level_UNIV)
  have "firstOf order st (trim line) = firstOf ?code st (trim line)"
  proof (cases "\<exists>l. matchesLevel l (trim line)")
    case True
    then obtain l where l: "matchesLevel l (trim line)" ..
    have "l \<in> set order" "l \<in> set ?code" using all code by blast+
    then show ?thesis using l firstOf_the by metis
  next
    case False
    then show ?thesis using firstOf_none[of order] firstOf_none[of ?code] by metis
  qed
  then show "parseRulesLineIn order st line = parseRulesLine st line"
    by (simp add: parseRulesLine_firstOf parseRulesLineIn_def)
qed

theorem classification_order_irrelevant_witness:
  "set [SubruleL, RuleL, SubcategoryL, CategoryL] = UNIV
   \<and> parseRulesLineIn [SubruleL, RuleL, SubcategoryL, CategoryL] initRules (js ''100. General'')
       = parseRulesLine initRules (js ''100. General'')
   \<and> parseRulesLine initRules (js ''100. General'') = Inl (TypeError ''subcategories'')"
proof -
  have h: "set [SubruleL, RuleL, SubcategoryL, CategoryL] = UNIV"
    by (auto simp: level_UNIV)
  have e: "parseRulesLine initRules (js ''100. General'') = Inl (TypeError ''subcategories'')"
    by (simp add: ev)
  from classification_order_irrelevant[where line = "js ''100. General''"
      and order = "[SubruleL, RuleL, SubcategoryL, CategoryL]" and st = initRules] h e
  show ?thesis by simp
qed

section \<open>The section extractors\<close>

text \<open>Searching and cutting arrays, in terms of \<open>takeWhile\<close> and \<open>dropWhile\<close>.\<close>

lemma findIndexFrom_notin: "\<forall>x\<in>set xs. \<not> p x \<Longrightarrow> findIndexFrom p xs k = -1"
  by (induction xs arbitrary: k) auto

lemma findIndexFrom_in:
  "x \<in> set xs \<Longrightarrow> p x \<Longrightarrow>
     findIndexFrom p xs k = k + int (length (takeWhile (\<lambda>x. \<not> p x) xs))"
  by (induction xs arbitrary: k) auto

lemma indexOf_notin: "x \<notin> set xs \<Longrightarrow> indexOf xs x = -1"
  by (auto simp: indexOf_def findIndex_def intro!: findIndexFrom_notin)

lemma indexOf_in: "x \<in> set xs \<Longrightarrow> indexOf xs x = int (length (takeWhile (\<lambda>y. y \<noteq> x) xs))"
  using findIndexFrom_in[of x xs "\<lambda>y. y = x" 0] by (simp add: indexOf_def findIndex_def)

lemma drop_takeWhile_length: "drop (length (takeWhile P xs)) xs = dropWhile P xs"
  by (induction xs) auto

lemma take_takeWhile_length: "take (length (takeWhile P xs)) xs = takeWhile P xs"
  by (induction xs) auto

lemma indexOfFrom_self:
  "x \<in> set xs \<Longrightarrow> indexOfFrom xs x (indexOf xs x) = indexOf xs x"
proof -
  assume x: "x \<in> set xs"
  let ?n = "length (takeWhile (\<lambda>y. y \<noteq> x) xs)"
  from x have d: "dropWhile (\<lambda>y. y \<noteq> x) xs \<noteq> []" by (simp add: dropWhile_eq_Nil_conv)
  then obtain r where r: "dropWhile (\<lambda>y. y \<noteq> x) xs = x # r"
    using hd_dropWhile[of "\<lambda>y. y \<noteq> x" xs] by (cases "dropWhile (\<lambda>y. y \<noteq> x) xs") auto
  show ?thesis
    by (simp add: indexOfFrom_def indexOf_in[OF x] drop_takeWhile_length r)
qed

lemma indexOfFrom_absent: "x \<notin> set xs \<Longrightarrow> indexOfFrom xs x k = -1"
  unfolding indexOfFrom_def Let_def
  by (rule findIndexFrom_notin) (auto dest: in_set_dropD)

lemma splice_front: "0 \<le> n \<Longrightarrow> spliceJs xs 0 n = drop (nat n) xs"
  by (auto simp: spliceJs_def Let_def min_def max_def)

lemma splice_tail_found:
  "0 \<le> e \<Longrightarrow> e \<le> int (length xs) \<Longrightarrow> spliceJs xs e (int (length xs) - e) = take (nat e) xs"
  by (auto simp: spliceJs_def Let_def min_def max_def)

lemma splice_tail_absent: "spliceJs xs (-1) (int (length xs) - (-1)) = butlast xs"
  by (cases "xs = []") (auto simp: spliceJs_def Let_def min_def max_def butlast_conv_take nat_diff_distrib)

lemma glossaryLines_eq:
  "glossaryLines rulesText = upToCredits (afterFirstHeading (splitCR rulesText))"
proof -
  let ?ls = "splitCR rulesText"
  have start: "spliceJs ?ls 0 (indexOfFrom ?ls glossaryHeading (indexOf ?ls glossaryHeading) + 1)
      = afterFirstHeading ?ls"
  proof (cases "glossaryHeading \<in> set ?ls")
    case True
    have "indexOfFrom ?ls glossaryHeading (indexOf ?ls glossaryHeading) + 1
        = int (Suc (length (takeWhile (\<lambda>y. y \<noteq> glossaryHeading) ?ls)))"
      using indexOfFrom_self[OF True] by (simp add: indexOf_in[OF True])
    moreover have "drop (Suc (length (takeWhile (\<lambda>y. y \<noteq> glossaryHeading) ?ls))) ?ls
        = tl (dropWhile (\<lambda>y. y \<noteq> glossaryHeading) ?ls)"
      by (simp only: drop_Suc tl_drop[symmetric] drop_takeWhile_length)
    ultimately show ?thesis using True
      by (simp add: splice_front afterFirstHeading_def del: of_nat_Suc)
  next
    case False
    then show ?thesis
      by (simp add: indexOfFrom_absent splice_front afterFirstHeading_def)
  qed
  have fin: "spliceJs xs (indexOf xs creditsMarker) (int (length xs) - indexOf xs creditsMarker)
      = upToCredits xs" for xs :: "jstring list"
  proof (cases "creditsMarker \<in> set xs")
    case True
    have "length (takeWhile (\<lambda>y. y \<noteq> creditsMarker) xs) \<le> length xs"
      by (rule length_takeWhile_le)
    then show ?thesis using True
      by (simp add: indexOf_in splice_tail_found upToCredits_def take_takeWhile_length)
  next
    case False
    then show ?thesis
      using splice_tail_absent[of xs] by (simp add: indexOf_notin upToCredits_def)
  qed
  show ?thesis
    unfolding glossaryLines_def Let_def start fin ..
qed

lemma rulesLines_absent:
  "js ''Credits'' \<notin> set (splitCR rulesText) \<Longrightarrow> rulesLines rulesText = tl (splitCR rulesText)"
proof -
  assume "js ''Credits'' \<notin> set (splitCR rulesText)"
  then have "findIndexFrom (\<lambda>line. line = js ''Credits'') (splitCR rulesText) 0 = -1"
    by (auto intro!: findIndexFrom_notin)
  then show ?thesis
    by (simp add: rulesLines_def Let_def findIndex_def splice_front drop_Suc tl_drop)
qed

lemma rulesLines_found:
  "js ''Credits'' \<in> set (splitCR rulesText) \<Longrightarrow>
     rulesLines rulesText = drop 2 (dropWhile (\<lambda>l. l \<noteq> js ''Credits'') (splitCR rulesText))"
proof -
  assume "js ''Credits'' \<in> set (splitCR rulesText)"
  then have "findIndexFrom (\<lambda>line. line = js ''Credits'') (splitCR rulesText) 0
      = int (length (takeWhile (\<lambda>l. l \<noteq> js ''Credits'') (splitCR rulesText)))"
    using findIndexFrom_in[of "js ''Credits''" "splitCR rulesText" "\<lambda>line. line = js ''Credits''" 0]
    by simp
  then show ?thesis
    by (simp add: rulesLines_def Let_def findIndex_def splice_front nat_add_distrib
        drop_takeWhile_length[symmetric] add.commute)
qed

lemmas evg = getGlossary_def glossaryLines_eq afterFirstHeading_def upToCredits_def ev

text \<open>
  Claim C1. The claim is that, of two glossary headings, getGlossary starts after the second.
  The search for the second heading starts at the index of the first, which
  \<open>indexOf\<close> includes, so it finds the first again (\<open>glossaryLines_eq\<close>):
  the section starts after the first heading. Here the table of contents holds the heading
  and one more entry, and the entries after it become glossary terms; the lines between
  the second heading and the credits marker alone would give the single term.
\<close>

theorem getGlossary_starts_after_first_heading:
  "getGlossary (joinCR [js ''Contents'', glossaryHeading, 10 # js ''1. Game Concepts'',
       glossaryHeading, 10 # js ''Ability'', 10 # js ''Text.'', creditsMarker, 10 # js ''Thanks''])
     = Inr [\<lparr>gt_term = js ''1. Game Concepts'', meanings = []\<rparr>,
            \<lparr>gt_term = js ''Glossary'', meanings = []\<rparr>,
            \<lparr>gt_term = js ''Ability'', meanings = [js ''Text.'']\<rparr>]
   \<and> parseGlossary [10 # js ''Ability'', 10 # js ''Text.'']
     = Inr [\<lparr>gt_term = js ''Ability'', meanings = [js ''Text.'']\<rparr>]"
  by (simp add: evg)

text \<open>
  Claim C3, as stated, fails: no extractor checks for a missing anchor. Without a
  \<open>Credits\<close> line getRules parses a category; without a glossary heading, and
  without a credits marker, getGlossary parses a term.
\<close>

theorem extractors_parse_without_anchor:
  "js ''Credits'' \<notin> set (splitCR (joinCR [js ''x'', js ''1. Game Concepts'']))
   \<and> getRules (joinCR [js ''x'', js ''1. Game Concepts''])
       = Inr [\<lparr>c_id = js ''1'', c_title = js ''Game Concepts'', subcategories = []\<rparr>]
   \<and> glossaryHeading \<notin> set (splitCR (joinCR [js ''Ability'', js ''Text.'', creditsMarker]))
   \<and> getGlossary (joinCR [js ''Ability'', js ''Text.'', creditsMarker])
       = Inr [\<lparr>gt_term = js ''Ability'', meanings = [js ''Text.'']\<rparr>]
   \<and> creditsMarker \<notin> set (splitCR (joinCR [js ''x'', glossaryHeading, js ''Ability'',
        js ''Text.'', js ''Last.'']))
   \<and> getGlossary (joinCR [js ''x'', glossaryHeading, js ''Ability'', js ''Text.'', js ''Last.''])
       = Inr [\<lparr>gt_term = js ''Ability'', meanings = [js ''Text.'']\<rparr>]"
  by (simp add: evg)

text \<open>
  Claim C3, amended. When an anchor is absent the extractors do not fail. Without a line
  equal to \<open>Credits\<close>, getRules drops the first line only and parses the rest.
  Without a glossary heading, getGlossary starts at the first line. Without a credits
  marker after the start, getGlossary drops the last line only and parses the rest.
\<close>

theorem extractors_run_without_anchor:
  "(js ''Credits'' \<notin> set (splitCR rulesText) \<longrightarrow>
      getRules rulesText = parseRules (tl (splitCR rulesText)))
   \<and> (glossaryHeading \<notin> set (splitCR rulesText) \<longrightarrow>
        getGlossary rulesText = parseGlossary (upToCredits (splitCR rulesText)))
   \<and> (creditsMarker \<notin> set (afterFirstHeading (splitCR rulesText)) \<longrightarrow>
        getGlossary rulesText = parseGlossary (butlast (afterFirstHeading (splitCR rulesText))))"
  by (simp add: getRules_def rulesLines_absent getGlossary_def glossaryLines_eq
      afterFirstHeading_def upToCredits_def)

theorem extractors_run_without_anchor_witness:
  "js ''Credits'' \<notin> set (splitCR (joinCR [js ''x'', js ''1. Game Concepts'']))
   \<and> getRules (joinCR [js ''x'', js ''1. Game Concepts'']) = parseRules [js ''1. Game Concepts'']
   \<and> glossaryHeading \<notin> set (splitCR (joinCR [js ''Ability'', js ''Text.'', creditsMarker]))
   \<and> getGlossary (joinCR [js ''Ability'', js ''Text.'', creditsMarker])
       = parseGlossary [js ''Ability'', js ''Text.'']
   \<and> creditsMarker \<notin> set (afterFirstHeading (splitCR (joinCR [js ''x'', glossaryHeading,
        js ''Ability'', js ''Text.'', js ''Last.''])))
   \<and> getGlossary (joinCR [js ''x'', glossaryHeading, js ''Ability'', js ''Text.'', js ''Last.''])
       = parseGlossary [js ''Ability'', js ''Text.'']"
proof -
  let ?a = "joinCR [js ''x'', js ''1. Game Concepts'']"
  let ?b = "joinCR [js ''Ability'', js ''Text.'', creditsMarker]"
  let ?c = "joinCR [js ''x'', glossaryHeading, js ''Ability'', js ''Text.'', js ''Last.'']"
  have sa: "splitCR ?a = [js ''x'', js ''1. Game Concepts'']"
    and sb: "splitCR ?b = [js ''Ability'', js ''Text.'', creditsMarker]"
    and sc: "splitCR ?c = [js ''x'', glossaryHeading, js ''Ability'', js ''Text.'', js ''Last.'']"
    by (simp_all add: ev)
  have ha: "js ''Credits'' \<notin> set (splitCR ?a)" unfolding sa by (simp add: ev)
  have hb: "glossaryHeading \<notin> set (splitCR ?b)" unfolding sb by (simp add: ev)
  have ac: "afterFirstHeading (splitCR ?c) = [js ''Ability'', js ''Text.'', js ''Last.'']"
    unfolding sc by (simp add: afterFirstHeading_def ev)
  have hc: "creditsMarker \<notin> set (afterFirstHeading (splitCR ?c))" unfolding ac by (simp add: ev)
  have ub: "upToCredits (splitCR ?b) = [js ''Ability'', js ''Text.'']"
    unfolding sb by (simp add: upToCredits_def ev)
  from extractors_run_without_anchor[of ?a] ha sa
  have 1: "getRules ?a = parseRules [js ''1. Game Concepts'']" by simp
  from extractors_run_without_anchor[of ?b] hb ub
  have 2: "getGlossary ?b = parseGlossary [js ''Ability'', js ''Text.'']" by simp
  from extractors_run_without_anchor[of ?c] hc ac
  have 3: "getGlossary ?c = parseGlossary [js ''Ability'', js ''Text.'']" by simp
  from ha hb hc 1 2 3 show ?thesis by (intro conjI)
qed

section \<open>Orphan lines\<close>

lemma forEach_append:
  "forEach f (xs @ ys) st =
     (case forEach f xs st of Inl e \<Rightarrow> Inl e | Inr st' \<Rightarrow> forEach f ys st')"
  by (induction xs arbitrary: st) (auto split: sum.splits)

lemma forEach_unchanged: "\<forall>l\<in>set ls. f st l = Inr st \<Longrightarrow> forEach f ls st = Inr st"
  by (induction ls) auto

lemma ignoredLine_step: "ignoredLine l \<Longrightarrow> parseRulesLine st l = Inr st"
  by (auto simp: ignoredLine_def parseRulesLine_def)

lemma childLine_orphan:
  "childLine l \<Longrightarrow> rulesArr st = [] \<Longrightarrow> parseRulesLine st l = Inl (TypeError ''subcategories'')"
  by (auto simp: childLine_def parseRulesLine_def subcategoryLine_def ruleLine_def
      subruleLine_def at_def Let_def split: option.splits)

lemma blankLine_step: "blankLine l \<Longrightarrow> parseGlossaryLine st l = Inr st"
  by (simp add: blankLine_def parseGlossaryLine_def)

lemma continuationLine_orphan:
  "continuationLine l \<Longrightarrow> termsArr st = [] \<Longrightarrow>
     parseGlossaryLine st l = Inl (TypeError ''meanings'')"
  by (simp add: continuationLine_def parseGlossaryLine_def at_def)

text \<open>
  Claim C2, as stated, fails: the error of an orphan line is the engine's TypeError for a
  property read of \<open>undefined\<close>, and it is the same value for different orphan
  lines and for different levels, so it identifies neither the line nor the level.
\<close>

theorem orphan_error_names_no_line:
  "parseRules [js ''100.1. Some rule text.''] = Inl (TypeError ''subcategories'')
   \<and> parseRules [js ''205.3a Other text.''] = Inl (TypeError ''subcategories'')
   \<and> parseRules [js ''100. General''] = Inl (TypeError ''subcategories'')
   \<and> parseGlossary [js ''It ends here.''] = Inl (TypeError ''meanings'')
   \<and> parseGlossary [js ''See rule 100.''] = Inl (TypeError ''meanings'')"
  by (simp add: ev)

text \<open>
  Claim C2, amended. When the first line parseRules does not ignore is a Subcategory,
  Rule or Subrule line, parseRules returns no tree: it ends with the TypeError of reading
  \<open>subcategories\<close> of \<open>undefined\<close>, whatever follows. When the first line
  of parseGlossary that is not blank is a continuation, parseGlossary ends with the
  TypeError of reading \<open>meanings\<close> of \<open>undefined\<close>. The line is neither
  dropped nor attached, and the error carries neither the line nor a level.
\<close>

theorem orphan_line_TypeError:
  "(list_all ignoredLine pre \<and> childLine line \<longrightarrow>
      parseRules (pre @ line # post) = Inl (TypeError ''subcategories''))
   \<and> (list_all blankLine gpre \<and> continuationLine gline \<longrightarrow>
        parseGlossary (gpre @ gline # gpost) = Inl (TypeError ''meanings''))"
proof (intro conjI impI)
  assume a: "list_all ignoredLine pre \<and> childLine line"
  then have "forEach parseRulesLine pre initRules = Inr initRules"
    by (intro forEach_unchanged) (auto simp: list_all_iff ignoredLine_step)
  moreover have "parseRulesLine initRules line = Inl (TypeError ''subcategories'')"
    using a by (intro childLine_orphan) (simp_all add: initRules_def)
  ultimately show "parseRules (pre @ line # post) = Inl (TypeError ''subcategories'')"
    by (simp add: parseRules_def forEach_append)
next
  assume a: "list_all blankLine gpre \<and> continuationLine gline"
  then have "forEach parseGlossaryLine gpre initGlossary = Inr initGlossary"
    by (intro forEach_unchanged) (auto simp: list_all_iff blankLine_step)
  moreover have "parseGlossaryLine initGlossary gline = Inl (TypeError ''meanings'')"
    using a by (intro continuationLine_orphan) (simp_all add: initGlossary_def)
  ultimately show "parseGlossary (gpre @ gline # gpost) = Inl (TypeError ''meanings'')"
    by (simp add: parseGlossary_def forEach_append)
qed

theorem orphan_line_TypeError_witness:
  "list_all ignoredLine [[], js ''Introduction''] \<and> childLine (js ''100.1. Some rule text.'')
   \<and> parseRules ([[], js ''Introduction''] @ js ''100.1. Some rule text.'' # [js ''1. Game Concepts''])
       = Inl (TypeError ''subcategories'')
   \<and> list_all blankLine [js '' ''] \<and> continuationLine (js ''See rule 100.'')
   \<and> parseGlossary ([js '' ''] @ js ''See rule 100.'' # [js ''Ability''])
       = Inl (TypeError ''meanings'')"
proof -
  have h1: "list_all ignoredLine [[], js ''Introduction''] \<and> childLine (js ''100.1. Some rule text.'')"
    by (simp add: ev)
  have h2: "list_all blankLine [js '' ''] \<and> continuationLine (js ''See rule 100.'')"
    by (simp add: ev)
  from orphan_line_TypeError[of "[[], js ''Introduction'']" "js ''100.1. Some rule text.''"
      "[js ''1. Game Concepts'']" "[js '' '']" "js ''See rule 100.''" "[js ''Ability'']"] h1 h2
  show ?thesis by blast
qed

section \<open>The effective date and the composed object\<close>

lemma effectiveMatch_sentence:
  "effectiveMatch (js ''These rules are effective as of November 8, 2024.'')
     = Some (js ''November 8, 2024'')"
  by (simp add: ev)

lemma getEffectiveDate_sentence:
  "at (splitCR rulesText) 2 = Some (js ''These rules are effective as of November 8, 2024.'') \<Longrightarrow>
     getEffectiveDate dateParse rulesText = Inr (Some (dateParse (js ''November 8, 2024'')))"
  unfolding getEffectiveDate_def by (simp add: effectiveMatch_sentence)

lemma third_line_sentence:
  "at (splitCR (joinCR [js ''Magic: The Gathering Comprehensive Rules'', [10],
         js ''These rules are effective as of November 8, 2024.'', js ''Introduction'']))
      2 = Some (js ''These rules are effective as of November 8, 2024.'')"
  by (simp add: ev)

text \<open>
  Claim C7, as stated, fails: getEffectiveDate normalises nothing, it returns what the
  host's \<open>Date.parse\<close> returns, and a host reads \<open>November 8, 2024\<close> as
  midnight of its own time zone. With the sentence on the third line and a host five
  hours behind UTC (the value of \<open>Date.parse\<close> at the phrase under
  America/New_York, 1731042000000) the result is 2024-11-08T05:00:00Z, not the
  1731024000000 of midnight UTC. The host here is given by its value at the phrase; no
  other argument is parsed.
\<close>

theorem getEffectiveDate_host_local_midnight:
  "at (splitCR (joinCR [js ''Magic: The Gathering Comprehensive Rules'', [10],
         js ''These rules are effective as of November 8, 2024.'', js ''Introduction'']))
      2 = Some (js ''These rules are effective as of November 8, 2024.'')
   \<and> getEffectiveDate (\<lambda>s. if s = js ''November 8, 2024'' then Num 1731042000000 else NaN)
        (joinCR [js ''Magic: The Gathering Comprehensive Rules'', [10],
           js ''These rules are effective as of November 8, 2024.'', js ''Introduction''])
      = Inr (Some (Num 1731042000000))
   \<and> utcMidnight 2024 11 8 = 1731024000000
   \<and> utcMidnight 2024 11 8 + 5 * 3600000 = 1731042000000
   \<and> Num 1731042000000 \<noteq> Num (utcMidnight 2024 11 8)"
proof -
  have u: "utcMidnight 2024 11 8 = 1731024000000"
    by (simp add: utcMidnight_def daysFromCivil_def Let_def)
  have "getEffectiveDate (\<lambda>s. if s = js ''November 8, 2024'' then Num 1731042000000 else NaN)
        (joinCR [js ''Magic: The Gathering Comprehensive Rules'', [10],
           js ''These rules are effective as of November 8, 2024.'', js ''Introduction''])
      = Inr (Some (Num 1731042000000))"
    unfolding getEffectiveDate_sentence[OF third_line_sentence] by simp
  with third_line_sentence u show ?thesis by simp
qed

text \<open>
  Claim C7, amended. When the third line of the document is the sentence
  \<open>These rules are effective as of November 8, 2024.\<close>, getEffectiveDate returns
  what the host's \<open>Date.parse\<close> returns for exactly \<open>November 8, 2024\<close>, with
  no normalisation of its own. The result is the timestamp of 2024-11-08 at midnight UTC,
  1731024000000, if and only if the host reads the phrase so, as a host whose time zone
  is UTC does.
\<close>

theorem getEffectiveDate_returns_host_parse:
  assumes "at (splitCR rulesText) 2 = Some (js ''These rules are effective as of November 8, 2024.'')"
  shows "getEffectiveDate dateParse rulesText = Inr (Some (dateParse (js ''November 8, 2024'')))
    \<and> (getEffectiveDate dateParse rulesText = Inr (Some (Num (utcMidnight 2024 11 8)))
         \<longleftrightarrow> dateParse (js ''November 8, 2024'') = Num (utcMidnight 2024 11 8))
    \<and> utcMidnight 2024 11 8 = 1731024000000"
proof -
  have "utcMidnight 2024 11 8 = 1731024000000"
    by (simp add: utcMidnight_def daysFromCivil_def Let_def)
  then show ?thesis using getEffectiveDate_sentence[OF assms, of dateParse] by simp
qed

theorem getEffectiveDate_returns_host_parse_witness:
  "at (splitCR (joinCR [js ''Magic: The Gathering Comprehensive Rules'', [10],
         js ''These rules are effective as of November 8, 2024.'', js ''Introduction'']))
      2 = Some (js ''These rules are effective as of November 8, 2024.'')
   \<and> getEffectiveDate (\<lambda>s. if s = js ''November 8, 2024'' then Num 1731024000000 else NaN)
        (joinCR [js ''Magic: The Gathering Comprehensive Rules'', [10],
           js ''These rules are effective as of November 8, 2024.'', js ''Introduction''])
      = Inr (Some (Num 1731024000000))
   \<and> (\<lambda>s. if s = js ''November 8, 2024'' then Num 1731024000000 else NaN) (js ''November 8, 2024'') = Num (utcMidnight 2024 11 8)"
proof -
  note t = getEffectiveDate_returns_host_parse[OF third_line_sentence, of "(\<lambda>s. if s = js ''November 8, 2024'' then Num 1731024000000 else NaN)"]
  from t have u: "utcMidnight 2024 11 8 = 1731024000000" by (elim conjE)
  have p: "(\<lambda>s. if s = js ''November 8, 2024'' then Num 1731024000000 else NaN) (js ''November 8, 2024'') = Num (utcMidnight 2024 11 8)"
    unfolding u by simp
  from t p have "getEffectiveDate (\<lambda>s. if s = js ''November 8, 2024'' then Num 1731024000000 else NaN)
        (joinCR [js ''Magic: The Gathering Comprehensive Rules'', [10],
           js ''These rules are effective as of November 8, 2024.'', js ''Introduction''])
      = Inr (Some (Num (utcMidnight 2024 11 8)))"
    by (elim conjE) (simp only:)
  with third_line_sentence p show ?thesis unfolding u by (intro conjI)
qed

text \<open>
  Claim C8. When getEffectiveDate yields no date, getRulesObject returns no object: it
  returns \<open>undefined\<close> whenever the two parsers return, and an exception of a
  parser otherwise. An object is returned only with the date getEffectiveDate determined,
  a number that is neither \<open>NaN\<close> nor zero.
\<close>

theorem getRulesObject_only_with_date:
  "(getEffectiveDate dateParse rulesText = Inr None \<longrightarrow>
      getRulesObject dateParse (Some rulesText) \<noteq> Inr (Some obj)
      \<and> (getRules rulesText = Inr rs \<and> getGlossary rulesText = Inr gl \<longrightarrow>
           getRulesObject dateParse (Some rulesText) = Inr None))
   \<and> (getRulesObject dateParse fetched = Inr (Some obj) \<longrightarrow>
        (\<exists>rulesText n. fetched = Some rulesText
           \<and> getEffectiveDate dateParse rulesText = Inr (Some (Num n)) \<and> n \<noteq> 0
           \<and> effectiveDate obj = Num n
           \<and> getRules rulesText = Inr (ro_rules obj)
           \<and> getGlossary rulesText = Inr (ro_glossary obj)))"
proof (intro conjI impI)
  assume d: "getEffectiveDate dateParse rulesText = Inr None"
  show "getRulesObject dateParse (Some rulesText) \<noteq> Inr (Some obj)"
    using d by (simp add: getRulesObject_def split: sum.splits)
  show "getRulesObject dateParse (Some rulesText) = Inr None"
    if "getRules rulesText = Inr rs \<and> getGlossary rulesText = Inr gl"
    using d that by (simp add: getRulesObject_def)
next
  assume r: "getRulesObject dateParse fetched = Inr (Some obj)"
  then obtain rulesText where f: "fetched = Some rulesText"
    by (cases fetched) (auto simp: getRulesObject_def)
  from r f obtain rs gl d where
    p: "getRules rulesText = Inr rs" "getGlossary rulesText = Inr gl"
      "getEffectiveDate dateParse rulesText = Inr d" "truthy d"
      "obj = \<lparr>ro_rules = rs, ro_glossary = gl, effectiveDate = the d\<rparr>"
    by (auto simp: getRulesObject_def split: if_splits sum.splits)
  from \<open>truthy d\<close> obtain n where "d = Some (Num n)" "n \<noteq> 0"
    by (cases d rule: truthy.cases) auto
  with p f show "\<exists>rulesText n. fetched = Some rulesText
           \<and> getEffectiveDate dateParse rulesText = Inr (Some (Num n)) \<and> n \<noteq> 0
           \<and> effectiveDate obj = Num n
           \<and> getRules rulesText = Inr (ro_rules obj)
           \<and> getGlossary rulesText = Inr (ro_glossary obj)"
    by auto
qed

theorem getRulesObject_only_with_date_witness:
  "getEffectiveDate (\<lambda>s. if s = js ''November 8, 2024'' then Num 1731024000000 else NaN) (joinCR [js ''a'', js ''b'', js ''c'']) = Inr None
   \<and> getRulesObject (\<lambda>s. if s = js ''November 8, 2024'' then Num 1731024000000 else NaN) (Some (joinCR [js ''a'', js ''b'', js ''c''])) = Inr None
   \<and> getRulesObject (\<lambda>s. if s = js ''November 8, 2024'' then Num 1731024000000 else NaN) (Some (joinCR [js ''Rules'', js ''x'',
          js ''These rules are effective as of November 8, 2024.'']))
       = Inr (Some \<lparr>ro_rules = [],
            ro_glossary = [\<lparr>gt_term = js ''Rules'', meanings = []\<rparr>,
                           \<lparr>gt_term = js ''x'', meanings = []\<rparr>],
            effectiveDate = Num 1731024000000\<rparr>)
   \<and> getEffectiveDate (\<lambda>s. if s = js ''November 8, 2024'' then Num 1731024000000 else NaN) (joinCR [js ''Rules'', js ''x'',
          js ''These rules are effective as of November 8, 2024.''])
       = Inr (Some (Num 1731024000000))"
proof -
  let ?h = "\<lambda>s. if s = js ''November 8, 2024'' then Num 1731024000000 else NaN"
  let ?a = "joinCR [js ''a'', js ''b'', js ''c'']"
  let ?b = "joinCR [js ''Rules'', js ''x'', js ''These rules are effective as of November 8, 2024.'']"
  let ?obj = "\<lparr>ro_rules = [],
            ro_glossary = [\<lparr>gt_term = js ''Rules'', meanings = []\<rparr>,
                           \<lparr>gt_term = js ''x'', meanings = []\<rparr>],
            effectiveDate = Num 1731024000000\<rparr>"
  have d: "getEffectiveDate ?h ?a = Inr None" by (simp add: ev)
  have r: "getRules ?a = Inr []" by (simp add: ev)
  have g: "getGlossary ?a = Inr [\<lparr>gt_term = js ''a'', meanings = []\<rparr>,
      \<lparr>gt_term = js ''b'', meanings = []\<rparr>]" by (simp add: evg)
  have rb: "getRules ?b = Inr []" by (simp add: ev)
  have gb: "getGlossary ?b = Inr [\<lparr>gt_term = js ''Rules'', meanings = []\<rparr>,
      \<lparr>gt_term = js ''x'', meanings = []\<rparr>]" by (simp add: evg)
  have ab: "at (splitCR ?b) 2 = Some (js ''These rules are effective as of November 8, 2024.'')"
    by (simp add: ev)
  have pb: "?h (js ''November 8, 2024'') = Num 1731024000000"
    by simp
  have db: "getEffectiveDate ?h ?b = Inr (Some (Num 1731024000000))"
    unfolding getEffectiveDate_def ab by (simp add: effectiveMatch_sentence pb)
  have nb: "?b \<noteq> []" by (simp add: ev)
  have o: "getRulesObject ?h (Some ?b) = Inr (Some ?obj)"
    unfolding getRulesObject_def using nb by (simp add: rb gb db del: joinCR.simps)
  note t = getRulesObject_only_with_date[where dateParse = ?h and rulesText = ?a
      and obj = ?obj and rs = "[]"
      and gl = "[\<lparr>gt_term = js ''a'', meanings = []\<rparr>, \<lparr>gt_term = js ''b'', meanings = []\<rparr>]"
      and fetched = "Some ?b"]
  from t d r g have 1: "getRulesObject ?h (Some ?a) = Inr None"
    by (simp del: joinCR.simps)
  from t[THEN conjunct2, THEN mp, OF o] obtain rt n where "Some ?b = Some rt"
    "getEffectiveDate ?h rt = Inr (Some (Num n))" "effectiveDate ?obj = Num n"
    by (elim conjE exE)
  then have 2: "getEffectiveDate ?h ?b = Inr (Some (Num 1731024000000))"
    by (simp del: joinCR.simps)
  from d 1 o 2 show ?thesis by (intro conjI)
qed

section \<open>parseGlossary\<close>

lemma line_cases: "blankLine l \<or> termLine l \<or> continuationLine l"
  by (auto simp: blankLine_def termLine_def continuationLine_def)

lemma at_Some: "at xs k = Some y \<longleftrightarrow> 0 \<le> k \<and> nat k < length xs \<and> xs ! nat k = y"
  by (cases "0 \<le> k \<and> k < int (length xs)") (auto simp: at_def)

lemma at_update: "at xs k = Some y \<Longrightarrow> at (xs[nat k := v]) k = Some v"
  by (auto simp: at_def split: if_splits)

lemma forEach_snoc:
  "forEach f (xs @ [x]) st =
     (case forEach f xs st of Inl e \<Rightarrow> Inl e | Inr st' \<Rightarrow> f st' x)"
  by (simp add: forEach_append split: sum.splits)

lemma forEach_snoc_Inr:
  "forEach f (xs @ [x]) st = Inr st'' \<Longrightarrow> \<exists>st'. forEach f xs st = Inr st' \<and> f st' x = Inr st''"
  by (simp add: forEach_snoc split: sum.splits)

lemma findIndex_first:
  "x \<in> set xs \<Longrightarrow> p x \<Longrightarrow> findIndex p xs = int (length (takeWhile (\<lambda>y. \<not> p y) xs))"
  using findIndexFrom_in[of x xs p 0] by (simp add: findIndex_def)

text \<open>The three steps of parseGlossaryLine.\<close>

lemma step_blank: "blankLine l \<Longrightarrow> parseGlossaryLine st l = Inr st"
  by (simp add: blankLine_def parseGlossaryLine_def)

lemma step_term:
  "termLine l \<Longrightarrow> parseGlossaryLine st l =
     Inr \<lparr>termsArr = termsArr st @ [\<lparr>gt_term = trim l, meanings = []\<rparr>],
          lastTermIndex = int (length (takeWhile (\<lambda>t. gt_term t \<noteq> trim l)
             (termsArr st @ [\<lparr>gt_term = trim l, meanings = []\<rparr>])))\<rparr>"
proof -
  assume t: "termLine l"
  let ?new = "\<lparr>gt_term = trim l, meanings = []\<rparr>"
  have "findIndex (\<lambda>t. gt_term t = trim l) (termsArr st @ [?new])
      = int (length (takeWhile (\<lambda>t. gt_term t \<noteq> trim l) (termsArr st @ [?new])))"
    by (rule findIndex_first[of ?new]) simp_all
  with t show ?thesis
    by (simp add: termLine_def parseGlossaryLine_def Let_def)
qed

lemma step_continuation:
  "continuationLine l \<Longrightarrow> parseGlossaryLine st l =
     (case at (termsArr st) (lastTermIndex st) of
        None \<Rightarrow> Inl (TypeError ''meanings'')
      | Some t \<Rightarrow> Inr (st\<lparr>termsArr := (termsArr st)
           [nat (lastTermIndex st) := t\<lparr>meanings := meanings t @ [trim l]\<rparr>]\<rparr>))"
  by (simp add: continuationLine_def parseGlossaryLine_def)

lemma map_upd_same: "f v = f (xs ! k) \<Longrightarrow> map f (xs[k := v]) = map f xs"
  by (cases "k < length xs") (simp_all add: map_update list_update_same_conv list_update_beyond)

lemma length_takeWhile_map:
  "length (takeWhile (\<lambda>t. f t \<noteq> x) xs) = length (takeWhile (\<lambda>y. y \<noteq> x) (map f xs))"
  by (induction xs) auto

lemma first_index_less:
  "x \<in> set ts \<Longrightarrow> length (takeWhile (\<lambda>y. y \<noteq> x) ts) < length ts"
  by (induction ts) auto

lemma first_index_props:
  assumes "x \<in> set ts"
  shows "length (takeWhile (\<lambda>y. y \<noteq> x) ts) < length ts"
    and "ts ! length (takeWhile (\<lambda>y. y \<noteq> x) ts) = x"
    and "firstOccurrence ts (length (takeWhile (\<lambda>y. y \<noteq> x) ts))"
proof -
  let ?n = "length (takeWhile (\<lambda>y. y \<noteq> x) ts)"
  show lt: "?n < length ts" using assms by (rule first_index_less)
  show nth: "ts ! ?n = x" using nth_length_takeWhile[OF lt] by simp
  have "x \<notin> set (takeWhile (\<lambda>y. y \<noteq> x) ts)" by (auto dest: set_takeWhileD)
  then show "firstOccurrence ts ?n"
    by (simp add: firstOccurrence_def nth take_takeWhile_length)
qed

lemma glossaryInv_init: "glossaryInv initGlossary"
  by (simp add: glossaryInv_def initGlossary_def)

lemma firstOccurrence_append:
  "k < length ts \<Longrightarrow> firstOccurrence (ts @ us) k = firstOccurrence ts k"
  by (simp add: firstOccurrence_def nth_append)

lemma glossaryInv_step:
  assumes inv: "glossaryInv st" and step: "parseGlossaryLine st l = Inr st'"
  shows "glossaryInv st'"
proof -
  consider (blank) "blankLine l" | (tm) "termLine l" | (cont) "continuationLine l" "\<not> termLine l"
    using line_cases by blast
  then show ?thesis
  proof cases
    case blank
    with step inv show ?thesis by (simp add: step_blank)
  next
    case tm
    let ?x = "trim l"
    let ?new = "\<lparr>gt_term = ?x, meanings = []\<rparr>"
    let ?arr = "termsArr st @ [?new]"
    let ?ts = "map gt_term ?arr"
    let ?n = "length (takeWhile (\<lambda>y. y \<noteq> ?x) ?ts)"
    have st': "st' = \<lparr>termsArr = ?arr, lastTermIndex = int ?n\<rparr>"
      using step step_term[OF tm, of st] length_takeWhile_map[of gt_term ?x ?arr] by simp
    have x: "?x \<in> set ?ts" by simp
    note fi = first_index_props[OF x]
    have "firstOccurrence ?ts k \<or> meanings (?arr ! k) = []" if "k < length ?arr" for k
    proof (cases "k < length (termsArr st)")
      case True
      with inv have "firstOccurrence (map gt_term (termsArr st)) k \<or> meanings (termsArr st ! k) = []"
        by (simp add: glossaryInv_def)
      with True show ?thesis
        using firstOccurrence_append[of k "map gt_term (termsArr st)" "[?x]"]
        by (simp add: nth_append)
    next
      case False
      with that have "k = length (termsArr st)" by simp
      then show ?thesis by simp
    qed
    with fi show ?thesis unfolding glossaryInv_def st' by simp
  next
    case cont
    from step cont obtain t where t: "at (termsArr st) (lastTermIndex st) = Some t"
      and st': "st' = st\<lparr>termsArr := (termsArr st)
           [nat (lastTermIndex st) := t\<lparr>meanings := meanings t @ [trim l]\<rparr>]\<rparr>"
      by (auto simp: step_continuation split: option.splits)
    let ?i = "nat (lastTermIndex st)"
    from t have i: "0 \<le> lastTermIndex st" "?i < length (termsArr st)" "termsArr st ! ?i = t"
      by (simp_all add: at_Some)
    then have ne: "termsArr st \<noteq> []" by auto
    have ts: "map gt_term (termsArr st') = map gt_term (termsArr st)"
      unfolding st' using i by (simp add: map_upd_same)
    from inv ne have fo: "firstOccurrence (map gt_term (termsArr st)) ?i"
      by (simp add: glossaryInv_def)
    have "firstOccurrence (map gt_term (termsArr st)) k \<or> meanings (termsArr st' ! k) = []"
      if "k < length (termsArr st)" for k
    proof (cases "k = ?i")
      case True
      with fo show ?thesis by simp
    next
      case False
      with inv that show ?thesis unfolding st' by (simp add: glossaryInv_def)
    qed
    with inv ne i show ?thesis
      unfolding glossaryInv_def ts unfolding st' by simp
  qed
qed

lemma glossaryInv_forEach:
  "glossaryInv st \<Longrightarrow> forEach parseGlossaryLine ls st = Inr st' \<Longrightarrow> glossaryInv st'"
proof (induction ls arbitrary: st)
  case Nil
  then show ?case by simp
next
  case (Cons l ls)
  then show ?case by (auto split: sum.splits dest: glossaryInv_step)
qed

lemma terms_step:
  "parseGlossaryLine st l = Inr st' \<Longrightarrow>
     map gt_term (termsArr st') = map gt_term (termsArr st) @ termLines [l]"
proof -
  assume step: "parseGlossaryLine st l = Inr st'"
  consider (blank) "blankLine l" "\<not> termLine l" | (tm) "termLine l"
    | (cont) "continuationLine l" "\<not> termLine l"
    using line_cases by (auto simp: blankLine_def termLine_def)
  then show ?thesis
  proof cases
    case blank
    with step show ?thesis by (simp add: step_blank termLines_def)
  next
    case tm
    with step show ?thesis using step_term[OF tm, of st] by (auto simp: termLines_def)
  next
    case cont
    with step show ?thesis
      by (auto simp: step_continuation termLines_def at_Some map_upd_same split: option.splits)
  qed
qed

lemma termLines_append: "termLines (xs @ ys) = termLines xs @ termLines ys"
  by (simp add: termLines_def)

lemma terms_forEach:
  "forEach parseGlossaryLine ls st = Inr st' \<Longrightarrow>
     map gt_term (termsArr st') = map gt_term (termsArr st) @ termLines ls"
proof (induction ls arbitrary: st)
  case Nil
  then show ?case by (simp add: termLines_def)
next
  case (Cons l ls)
  from Cons.prems obtain st1 where 1: "parseGlossaryLine st l = Inr st1"
    and 2: "forEach parseGlossaryLine ls st1 = Inr st'"
    by (auto split: sum.splits)
  from terms_step[OF 1] Cons.IH[OF 2] show ?case
    using termLines_append[of "[l]" ls] by simp
qed

lemma continuation_run:
  "list_all continuationLine cs \<Longrightarrow> at arr i = Some t \<Longrightarrow>
     forEach parseGlossaryLine cs \<lparr>termsArr = arr, lastTermIndex = i\<rparr>
       = Inr \<lparr>termsArr = arr[nat i := t\<lparr>meanings := meanings t @ map trim cs\<rparr>],
              lastTermIndex = i\<rparr>"
proof (induction cs arbitrary: arr t)
  case Nil
  then have "arr[nat i := t] = arr" by (auto simp: at_Some)
  then show ?case by simp
next
  case (Cons c cs)
  let ?t = "t\<lparr>meanings := meanings t @ [trim c]\<rparr>"
  from Cons.prems have c: "continuationLine c" and cs: "list_all continuationLine cs" by simp_all
  have 1: "parseGlossaryLine \<lparr>termsArr = arr, lastTermIndex = i\<rparr> c
      = Inr \<lparr>termsArr = arr[nat i := ?t], lastTermIndex = i\<rparr>"
    using Cons.prems(2) by (simp add: step_continuation[OF c])
  have 2: "at (arr[nat i := ?t]) i = Some ?t" using Cons.prems(2) by (rule at_update)
  show ?case using Cons.IH[OF cs 2] 1 by simp
qed

lemma parseGlossary_Inr:
  "parseGlossary ls = Inr ts \<longleftrightarrow>
     (\<exists>st. forEach parseGlossaryLine ls initGlossary = Inr st \<and> termsArr st = ts)"
  by (auto simp: parseGlossary_def split: sum.splits)

lemma duplicate_term_run:
  assumes pre: "parseGlossary pre = Inr ts" and l: "termLine l"
    and dup: "trim l \<in> gt_term ` set ts" and cs: "list_all continuationLine cs"
  shows "parseGlossary (pre @ l # cs) =
     Inr (ts[length (takeWhile (\<lambda>t. gt_term t \<noteq> trim l) ts) :=
            (ts ! length (takeWhile (\<lambda>t. gt_term t \<noteq> trim l) ts))
              \<lparr>meanings := meanings (ts ! length (takeWhile (\<lambda>t. gt_term t \<noteq> trim l) ts))
                 @ map trim cs\<rparr>]
          @ [\<lparr>gt_term = trim l, meanings = []\<rparr>])"
proof -
  let ?x = "trim l"
  let ?new = "\<lparr>gt_term = ?x, meanings = []\<rparr>"
  let ?n = "length (takeWhile (\<lambda>t. gt_term t \<noteq> ?x) ts)"
  from pre obtain st where st: "forEach parseGlossaryLine pre initGlossary = Inr st"
    "termsArr st = ts" by (auto simp: parseGlossary_Inr)
  from dup obtain u where u: "u \<in> set ts" "\<not> gt_term u \<noteq> ?x" by auto
  then have tw: "takeWhile (\<lambda>t. gt_term t \<noteq> ?x) (ts @ [?new]) = takeWhile (\<lambda>t. gt_term t \<noteq> ?x) ts"
    by (intro takeWhile_append1)
  from dup have "?x \<in> set (map gt_term ts)" by simp
  from first_index_less[OF this] have n: "?n < length ts"
    unfolding length_takeWhile_map[of gt_term ?x ts] by simp
  have 1: "parseGlossaryLine st l = Inr \<lparr>termsArr = ts @ [?new], lastTermIndex = int ?n\<rparr>"
    using step_term[OF l, of st] st(2) tw by simp
  have 2: "at (ts @ [?new]) (int ?n) = Some (ts ! ?n)"
    using n by (simp add: at_Some nth_append)
  from continuation_run[OF cs 2]
  have "forEach parseGlossaryLine (l # cs) st
      = Inr \<lparr>termsArr = (ts @ [?new])[?n := (ts ! ?n)\<lparr>meanings := meanings (ts ! ?n) @ map trim cs\<rparr>],
             lastTermIndex = int ?n\<rparr>"
    using 1 by simp
  then show ?thesis
    using st(1) n by (simp add: parseGlossary_def forEach_append list_update_append1)
qed

text \<open>
  Claim C10. parseGlossary keeps one entry for each term line, duplicates included; an
  entry whose term already stands earlier in the list never gets a meaning; and when a
  term line repeats a term of the list so far, the continuation lines that follow it are
  appended to the first entry of that term, and the new entry stays empty.
\<close>

theorem duplicate_terms_feed_first_entry:
  "(parseGlossary lines = Inr ts \<longrightarrow>
      map gt_term ts = termLines lines
      \<and> (\<forall>k<length ts. gt_term (ts ! k) \<in> gt_term ` set (take k ts) \<longrightarrow> meanings (ts ! k) = []))
   \<and> (parseGlossary pre = Inr ts' \<and> termLine l \<and> trim l \<in> gt_term ` set ts'
        \<and> list_all continuationLine cs \<longrightarrow>
        parseGlossary (pre @ l # cs) =
          Inr (ts'[length (takeWhile (\<lambda>t. gt_term t \<noteq> trim l) ts') :=
                 (ts' ! length (takeWhile (\<lambda>t. gt_term t \<noteq> trim l) ts'))
                   \<lparr>meanings :=
                      meanings (ts' ! length (takeWhile (\<lambda>t. gt_term t \<noteq> trim l) ts'))
                      @ map trim cs\<rparr>]
               @ [\<lparr>gt_term = trim l, meanings = []\<rparr>]))"
proof (intro conjI impI allI)
  assume p: "parseGlossary lines = Inr ts"
  then obtain st where st: "forEach parseGlossaryLine lines initGlossary = Inr st"
    "termsArr st = ts" by (auto simp: parseGlossary_Inr)
  from terms_forEach[OF st(1)] st(2) show "map gt_term ts = termLines lines"
    by (simp add: initGlossary_def)
  fix k
  assume k: "k < length ts" and d: "gt_term (ts ! k) \<in> gt_term ` set (take k ts)"
  from glossaryInv_forEach[OF glossaryInv_init st(1)] st(2) k
  have "firstOccurrence (map gt_term ts) k \<or> meanings (ts ! k) = []"
    by (simp add: glossaryInv_def)
  moreover from k d have "\<not> firstOccurrence (map gt_term ts) k"
    by (simp add: firstOccurrence_def take_map)
  ultimately show "meanings (ts ! k) = []" by simp
next
  assume a: "parseGlossary pre = Inr ts' \<and> termLine l \<and> trim l \<in> gt_term ` set ts'
        \<and> list_all continuationLine cs"
  then have a1: "parseGlossary pre = Inr ts'" and a2: "termLine l"
    and a3: "trim l \<in> gt_term ` set ts'" and a4: "list_all continuationLine cs"
    by simp_all
  show "parseGlossary (pre @ l # cs) =
          Inr (ts'[length (takeWhile (\<lambda>t. gt_term t \<noteq> trim l) ts') :=
                 (ts' ! length (takeWhile (\<lambda>t. gt_term t \<noteq> trim l) ts'))
                   \<lparr>meanings :=
                      meanings (ts' ! length (takeWhile (\<lambda>t. gt_term t \<noteq> trim l) ts'))
                      @ map trim cs\<rparr>]
               @ [\<lparr>gt_term = trim l, meanings = []\<rparr>])"
    by (rule duplicate_term_run[OF a1 a2 a3 a4])
qed

lemma groupGlossary_snoc: "groupGlossary (xs @ [x]) = groupLine (groupGlossary xs) x"
  by (simp add: groupGlossary_def)

lemma orphanFirst_error:
  assumes "orphanFirst ls"
  shows "forEach parseGlossaryLine ls initGlossary = Inl (TypeError ''meanings'')"
proof -
  from assms obtain l post where d: "dropWhile blankLine ls = l # post" and c: "continuationLine l"
    by (auto simp: orphanFirst_def split: list.splits)
  have ls: "ls = takeWhile blankLine ls @ l # post"
    using takeWhile_dropWhile_id[of blankLine ls] d by simp
  have "forEach parseGlossaryLine (takeWhile blankLine ls) initGlossary = Inr initGlossary"
    by (intro forEach_unchanged) (auto dest: set_takeWhileD simp: blankLine_step)
  moreover have "parseGlossaryLine initGlossary l = Inl (TypeError ''meanings'')"
    using c by (intro continuationLine_orphan) (simp_all add: initGlossary_def)
  ultimately show ?thesis
    by (subst ls) (simp add: forEach_append)
qed

lemma orphanFirst_snoc:
  "orphanFirst (xs @ [x]) \<longleftrightarrow> orphanFirst xs \<or> (list_all blankLine xs \<and> continuationLine x)"
proof (cases "list_all blankLine xs")
  case True
  then have a: "dropWhile blankLine xs = []" by (simp add: list_all_iff)
  from True have b: "dropWhile blankLine (xs @ [x]) = dropWhile blankLine [x]"
    by (simp add: list_all_iff dropWhile_append2)
  show ?thesis unfolding orphanFirst_def a b using True
    by (auto simp: continuationLine_def blankLine_def)
next
  case False
  then obtain y where "y \<in> set xs" "\<not> blankLine y" by (auto simp: list_all_iff)
  then have "dropWhile blankLine (xs @ [x]) = dropWhile blankLine xs @ [x]"
    by (intro dropWhile_append1)
  moreover from False have "dropWhile blankLine xs \<noteq> []" by (simp add: list_all_iff)
  ultimately show ?thesis using False
    by (cases "dropWhile blankLine xs") (auto simp: orphanFirst_def)
qed

lemma grouping_run:
  "distinct (termLines ls) \<Longrightarrow> \<not> orphanFirst ls \<Longrightarrow>
     \<exists>st. forEach parseGlossaryLine ls initGlossary = Inr st
        \<and> termsArr st = groupGlossary ls
        \<and> (termsArr st = [] \<longleftrightarrow> list_all blankLine ls)
        \<and> (termsArr st \<noteq> [] \<longrightarrow> lastTermIndex st = int (length (termsArr st)) - 1)"
proof (induction ls rule: rev_induct)
  case Nil
  then show ?case by (simp add: groupGlossary_def initGlossary_def)
next
  case (snoc x xs)
  from snoc.prems have dx: "distinct (termLines xs)" and no: "\<not> orphanFirst xs"
    and nx: "\<not> (list_all blankLine xs \<and> continuationLine x)"
    by (simp_all add: termLines_append orphanFirst_snoc)
  from snoc.IH[OF dx no] obtain st where st: "forEach parseGlossaryLine xs initGlossary = Inr st"
    and g: "termsArr st = groupGlossary xs"
    and e: "termsArr st = [] \<longleftrightarrow> list_all blankLine xs"
    and c: "termsArr st \<noteq> [] \<longrightarrow> lastTermIndex st = int (length (termsArr st)) - 1"
    by blast
  have run: "forEach parseGlossaryLine (xs @ [x]) initGlossary = parseGlossaryLine st x"
    using st by (simp add: forEach_snoc)
  consider (blank) "blankLine x" | (tm) "termLine x" "\<not> blankLine x"
    | (cont) "continuationLine x" "\<not> termLine x" "\<not> blankLine x"
    using line_cases[of x] by (auto simp: blankLine_def continuationLine_def)
  then show ?case
  proof cases
    case blank
    then show ?thesis using run g e c
      by (simp add: step_blank groupGlossary_snoc groupLine_def)
  next
    case tm
    let ?new = "\<lparr>gt_term = trim x, meanings = []\<rparr>"
    from terms_forEach[OF st] have ts: "map gt_term (termsArr st) = termLines xs"
      by (simp add: initGlossary_def)
    from snoc.prems(1) tm(1) have "trim x \<notin> set (termLines xs)"
      by (simp add: termLines_append termLines_def)
    with ts have "\<forall>t\<in>set (termsArr st). gt_term t \<noteq> trim x" by (metis image_eqI set_map)
    then have "takeWhile (\<lambda>t. gt_term t \<noteq> trim x) (termsArr st @ [?new]) = termsArr st"
      by (simp add: takeWhile_append2)
    then show ?thesis using run g step_term[OF tm(1), of st] tm
      by (simp add: groupGlossary_snoc groupLine_def)
  next
    case cont
    from nx cont(1) e have ne: "termsArr st \<noteq> []" by simp
    with c have i: "lastTermIndex st = int (length (termsArr st)) - 1" by simp
    from ne have len: "0 < length (termsArr st)" by simp
    then have k: "nat (lastTermIndex st) = length (termsArr st) - 1"
      unfolding i by arith
    have a1: "0 \<le> lastTermIndex st" using len unfolding i by simp
    have a2: "nat (lastTermIndex st) < length (termsArr st)" unfolding k using len by simp
    have a3: "termsArr st ! nat (lastTermIndex st) = last (termsArr st)"
      unfolding k using ne by (simp add: last_conv_nth)
    from a1 a2 a3 have at: "at (termsArr st) (lastTermIndex st) = Some (last (termsArr st))"
      unfolding at_Some by (intro conjI)
    have upd: "(termsArr st)[nat (lastTermIndex st) := v] = butlast (termsArr st) @ [v]" for v
      unfolding k using ne
      by (cases "termsArr st" rule: rev_cases) simp_all
    have sx: "parseGlossaryLine st x = Inr (st\<lparr>termsArr := butlast (termsArr st) @
        [(last (termsArr st))\<lparr>meanings := meanings (last (termsArr st)) @ [trim x]\<rparr>]\<rparr>)"
      unfolding step_continuation[OF cont(1)] at upd by simp
    have gx: "groupGlossary (xs @ [x]) = butlast (termsArr st) @
        [(last (termsArr st))\<lparr>meanings := meanings (last (termsArr st)) @ [trim x]\<rparr>]"
      using cont g by (simp add: groupGlossary_snoc groupLine_def)
    show ?thesis unfolding run sx gx using i ne cont(3) by simp
  qed
qed

lemma grouping_refines:
  "distinct (termLines ls) \<Longrightarrow>
     parseGlossary ls =
       (if orphanFirst ls then Inl (TypeError ''meanings'') else Inr (groupGlossary ls))"
  using grouping_run[of ls] orphanFirst_error[of ls]
  by (auto simp: parseGlossary_def)

lemma one_term_three_meanings:
  assumes "termLine t" "continuationLine c1" "continuationLine c2" "continuationLine c3"
  shows "parseGlossary [t, c1, c2, c3] = Inr [\<lparr>gt_term = trim t, meanings = [trim c1, trim c2, trim c3]\<rparr>]"
proof -
  have nt: "\<not> termLine c1" "\<not> termLine c2" "\<not> termLine c3"
    and nb: "\<not> blankLine t" "\<not> blankLine c1" "\<not> blankLine c2" "\<not> blankLine c3"
    using assms by (auto simp: termLine_def continuationLine_def blankLine_def)
  have d: "distinct (termLines [t, c1, c2, c3])" using assms nt by (simp add: termLines_def)
  have o: "\<not> orphanFirst [t, c1, c2, c3]"
    using assms nb by (simp add: orphanFirst_def continuationLine_def termLine_def)
  show ?thesis
    using grouping_refines[OF d] o assms nt nb
    by (simp add: groupGlossary_def groupLine_def)
qed

lemma term_lines_filter:
  "termLines ls = map trim (filter (\<lambda>l. trim l \<noteq> [] \<and> \<not> endsWith (trim l) (js ''.'')
      \<and> \<not> endsWith (trim l) [8221] \<and> \<not> includesStr (trim l) (js ''See rule'')) ls)"
proof -
  have "termLine = (\<lambda>l. trim l \<noteq> [] \<and> \<not> endsWith (trim l) (js ''.'')
      \<and> \<not> endsWith (trim l) [8221] \<and> \<not> includesStr (trim l) (js ''See rule''))"
    by (auto simp: fun_eq_iff termLine_def isTermLine_def)
  then show ?thesis by (simp add: termLines_def)
qed

lemmas evt = ev termLine_def termLines_def groupLine_def groupGlossary_def orphanFirst_def

theorem duplicate_terms_feed_first_entry_witness:
  "parseGlossary [js ''Ability'', js ''It is text.'', js ''Ability'', js ''More text.'']
     = Inr [\<lparr>gt_term = js ''Ability'', meanings = [js ''It is text.'', js ''More text.'']\<rparr>,
            \<lparr>gt_term = js ''Ability'', meanings = []\<rparr>]
   \<and> map gt_term [\<lparr>gt_term = js ''Ability'', meanings = [js ''It is text.'', js ''More text.'']\<rparr>,
            \<lparr>gt_term = js ''Ability'', meanings = []\<rparr>]
       = termLines [js ''Ability'', js ''It is text.'', js ''Ability'', js ''More text.'']
   \<and> parseGlossary [js ''Ability'', js ''It is text.'']
       = Inr [\<lparr>gt_term = js ''Ability'', meanings = [js ''It is text.'']\<rparr>]
   \<and> termLine (js ''Ability'')
   \<and> trim (js ''Ability'')
       \<in> gt_term ` set [\<lparr>gt_term = js ''Ability'', meanings = [js ''It is text.'']\<rparr>]
   \<and> list_all continuationLine [js ''More text.'']"
proof -
  let ?L = "[js ''Ability'', js ''It is text.'', js ''Ability'', js ''More text.'']"
  let ?pre = "[js ''Ability'', js ''It is text.'']"
  let ?T' = "[\<lparr>gt_term = js ''Ability'', meanings = [js ''It is text.'']\<rparr>]"
  let ?T = "[\<lparr>gt_term = js ''Ability'', meanings = [js ''It is text.'', js ''More text.'']\<rparr>,
            \<lparr>gt_term = js ''Ability'', meanings = []\<rparr>]"
  have p: "parseGlossary ?pre = Inr ?T'" by (simp add: ev)
  have t: "termLine (js ''Ability'')" by (simp add: evt)
  have tr: "trim (js ''Ability'') = js ''Ability''" by (simp add: ev)
  have m: "trim (js ''Ability'') \<in> gt_term ` set ?T'" unfolding tr by simp
  have c: "list_all continuationLine [js ''More text.'']" by (simp add: ev)
  have trc: "map trim [js ''More text.''] = [js ''More text.'']" by (simp add: ev)
  have tw: "takeWhile (\<lambda>t. gt_term t \<noteq> js ''Ability'') ?T' = []" by simp
  note inst = duplicate_terms_feed_first_entry[where pre = ?pre and ts' = ?T'
      and l = "js ''Ability''" and cs = "[js ''More text.'']" and lines = ?L and ts = ?T]
  from inst[THEN conjunct2, THEN mp, OF conjI[OF p conjI[OF t conjI[OF m c]]]]
  have r: "parseGlossary ?L = Inr ?T"
    unfolding tr trc tw by simp
  from inst[THEN conjunct1, THEN mp, OF r]
  have e: "map gt_term ?T = termLines ?L" by (rule conjunct1)
  from r e p t m c show ?thesis by (intro conjI)
qed

text \<open>
  Claim C6, as stated, fails in two places. A term line that repeats an earlier term is
  appended, but the cursor goes to the earlier entry, which gets the meanings that
  follow. And lines that do not look like the end of a definition (no period, no closing
  quotation mark, no \<open>See rule\<close>) are terms themselves: after a term line, two of them
  and a line that ends with a period give three entries, not one entry of three meanings.
\<close>

theorem term_cursor_goes_to_first_equal_term:
  "parseGlossary [js ''Ability'', js ''Other'', js ''Ability'', js ''It ends.'']
     = Inr [\<lparr>gt_term = js ''Ability'', meanings = [js ''It ends.'']\<rparr>,
            \<lparr>gt_term = js ''Other'', meanings = []\<rparr>,
            \<lparr>gt_term = js ''Ability'', meanings = []\<rparr>]
   \<and> parseGlossary [js ''Ability'', js ''first line'', js ''second line'', js ''It ends.'']
     = Inr [\<lparr>gt_term = js ''Ability'', meanings = []\<rparr>,
            \<lparr>gt_term = js ''first line'', meanings = []\<rparr>,
            \<lparr>gt_term = js ''second line'', meanings = [js ''It ends.'']\<rparr>]"
  by (simp add: ev)

text \<open>
  Claim C6, amended. The terms of the result are the trimmed lines that are not blank, do
  not end with a period, do not end with the closing quotation mark U+201D and do not
  contain \<open>See rule\<close>, one entry for each, in document order. When no term repeats,
  the cursor is the entry appended last and every other non-blank line is appended, in
  order, to its meanings: parseGlossary returns the grouping \<open>groupGlossary\<close>, or the
  TypeError when a continuation comes before any term. So a term line followed by three
  continuation lines (two that end with U+201D or contain \<open>See rule\<close>, then one that
  ends with a period) gives one entry with these three meanings in order.
\<close>

theorem glossary_terms_and_grouping:
  "(parseGlossary lines = Inr ts \<longrightarrow>
      map gt_term ts =
        map trim (filter (\<lambda>l. trim l \<noteq> [] \<and> \<not> endsWith (trim l) (js ''.'')
          \<and> \<not> endsWith (trim l) [8221] \<and> \<not> includesStr (trim l) (js ''See rule'')) lines))
   \<and> (distinct (termLines lines) \<longrightarrow>
        parseGlossary lines =
          (if orphanFirst lines then Inl (TypeError ''meanings'')
           else Inr (groupGlossary lines)))
   \<and> (termLine t \<and> continuationLine c1 \<and> continuationLine c2 \<and> continuationLine c3 \<longrightarrow>
        parseGlossary [t, c1, c2, c3]
          = Inr [\<lparr>gt_term = trim t, meanings = [trim c1, trim c2, trim c3]\<rparr>])"
proof (intro conjI impI)
  assume "parseGlossary lines = Inr ts"
  then obtain st where st: "forEach parseGlossaryLine lines initGlossary = Inr st"
    "termsArr st = ts" by (auto simp: parseGlossary_Inr)
  from terms_forEach[OF st(1)] st(2) have "map gt_term ts = termLines lines"
    by (simp add: initGlossary_def)
  then show "map gt_term ts =
        map trim (filter (\<lambda>l. trim l \<noteq> [] \<and> \<not> endsWith (trim l) (js ''.'')
          \<and> \<not> endsWith (trim l) [8221] \<and> \<not> includesStr (trim l) (js ''See rule'')) lines)"
    by (simp only: term_lines_filter)
next
  assume "distinct (termLines lines)"
  then show "parseGlossary lines =
          (if orphanFirst lines then Inl (TypeError ''meanings'')
           else Inr (groupGlossary lines))"
    by (rule grouping_refines)
next
  assume "termLine t \<and> continuationLine c1 \<and> continuationLine c2 \<and> continuationLine c3"
  then show "parseGlossary [t, c1, c2, c3]
          = Inr [\<lparr>gt_term = trim t, meanings = [trim c1, trim c2, trim c3]\<rparr>]"
    by (intro one_term_three_meanings) simp_all
qed

theorem glossary_terms_and_grouping_witness:
  "termLine (js ''Ability'') \<and> continuationLine (js ''See rule 113, Abilities'')
   \<and> continuationLine (8220 # js ''quoted'' @ [8221])
   \<and> continuationLine (js ''It ends with a period.'')
   \<and> distinct (termLines [js ''Ability'', js ''See rule 113, Abilities'',
         8220 # js ''quoted'' @ [8221], js ''It ends with a period.''])
   \<and> parseGlossary [js ''Ability'', js ''See rule 113, Abilities'',
         8220 # js ''quoted'' @ [8221], js ''It ends with a period.'']
       = Inr [\<lparr>gt_term = js ''Ability'', meanings = [js ''See rule 113, Abilities'',
                8220 # js ''quoted'' @ [8221], js ''It ends with a period.'']\<rparr>]
   \<and> groupGlossary [js ''Ability'', js ''See rule 113, Abilities'',
         8220 # js ''quoted'' @ [8221], js ''It ends with a period.'']
       = [\<lparr>gt_term = js ''Ability'', meanings = [js ''See rule 113, Abilities'',
                8220 # js ''quoted'' @ [8221], js ''It ends with a period.'']\<rparr>]
   \<and> map gt_term [\<lparr>gt_term = js ''Ability'', meanings = [js ''See rule 113, Abilities'',
                8220 # js ''quoted'' @ [8221], js ''It ends with a period.'']\<rparr>]
       = [js ''Ability'']"
proof -
  let ?t = "js ''Ability''"
  let ?c1 = "js ''See rule 113, Abilities''"
  let ?c2 = "8220 # js ''quoted'' @ [8221]"
  let ?c3 = "js ''It ends with a period.''"
  let ?L = "[?t, ?c1, ?c2, ?c3]"
  let ?T = "[\<lparr>gt_term = ?t, meanings = [?c1, ?c2, ?c3]\<rparr>]"
  have h: "termLine ?t" "continuationLine ?c1" "continuationLine ?c2" "continuationLine ?c3"
    by (simp_all add: evt)
  have tr: "trim ?t = ?t" "trim ?c1 = ?c1" "trim ?c2 = ?c2" "trim ?c3 = ?c3"
    by (simp_all add: ev)
  have d: "distinct (termLines ?L)" by (simp add: evt)
  have o: "\<not> orphanFirst ?L" by (simp add: evt)
  have g: "groupGlossary ?L = ?T" by (simp add: evt)
  note inst = glossary_terms_and_grouping[where lines = ?L and ts = ?T and t = ?t and ?c1.0 = ?c1
      and ?c2.0 = ?c2 and ?c3.0 = ?c3]
  from inst[THEN conjunct2, THEN conjunct2, THEN mp, OF conjI[OF h(1) conjI[OF h(2) conjI[OF h(3) h(4)]]]]
  have p: "parseGlossary ?L = Inr ?T" unfolding tr .
  from inst[THEN conjunct2, THEN conjunct1, THEN mp, OF d] o
  have p': "parseGlossary ?L = Inr (groupGlossary ?L)" by simp
  from inst[THEN conjunct1, THEN mp, OF p] have m: "map gt_term ?T = [?t]" by simp
  from h d p g m show ?thesis by (intro conjI)
qed

section \<open>parseRules\<close>

lemma parseRulesLine_classify:
  "parseRulesLine st line =
     (case classify line of
        CategoryK ident g2 \<Rightarrow> categoryLine st ident g2
      | SubcategoryK ident g2 \<Rightarrow> subcategoryLine st ident g2
      | RuleK ident rule \<Rightarrow> ruleLine st ident rule
      | SubruleK ident rule \<Rightarrow> subruleLine st ident rule
      | IgnoredK \<Rightarrow> Inr st)"
  by (simp add: parseRulesLine_def classify_def Let_def split: option.splits)

lemma at_indexOf:
  "x \<in> set xs \<Longrightarrow> at xs (indexOf xs x) = Some x"
  using first_index_props(1,2)[of x xs] by (simp add: indexOf_in at_Some)

lemma at_indexOf_map:
  assumes "i \<in> f ` set xs"
  shows "\<exists>y. at xs (indexOf (map f xs) i) = Some y \<and> f y = i"
proof -
  from assms have "i \<in> set (map f xs)" by simp
  from at_indexOf[OF this] show ?thesis by (auto simp: at_Some)
qed

lemma at_in_set: "at xs k = Some y \<Longrightarrow> y \<in> set xs"
  by (auto simp: at_Some)

text \<open>What each branch does to the state when it returns.\<close>

lemma categoryLine_Inr:
  "categoryLine st i g = Inr st' \<longleftrightarrow>
     st' = st\<lparr>rulesArr := (if i \<in> c_id ` set (rulesArr st) then rulesArr st
                              else rulesArr st @ [\<lparr>c_id = i, c_title = trim g, subcategories = []\<rparr>]),
              lastCategoryIndex := indexOf (map c_id
                 (if i \<in> c_id ` set (rulesArr st) then rulesArr st
                  else rulesArr st @ [\<lparr>c_id = i, c_title = trim g, subcategories = []\<rparr>])) i\<rparr>"
  by (auto simp: categoryLine_def Let_def list_ex_iff image_iff)

lemma subcategoryLine_Inr:
  "subcategoryLine st j g = Inr st' \<longleftrightarrow>
     (\<exists>c. at (rulesArr st) (lastCategoryIndex st) = Some c \<and>
        st' = st\<lparr>rulesArr := (rulesArr st)[nat (lastCategoryIndex st) :=
                   c\<lparr>subcategories :=
                      (if j \<in> sc_id ` set (subcategories c) then subcategories c
                       else subcategories c @ [\<lparr>sc_id = j, sc_title = trim g, rules = []\<rparr>])\<rparr>],
                 lastSubcategoryIndex := indexOf (map sc_id
                      (if j \<in> sc_id ` set (subcategories c) then subcategories c
                       else subcategories c @ [\<lparr>sc_id = j, sc_title = trim g, rules = []\<rparr>])) j\<rparr>)"
  by (auto simp: subcategoryLine_def Let_def list_ex_iff image_iff split: option.splits)

lemma ruleLine_Inr:
  "ruleLine st k txt = Inr st' \<longleftrightarrow>
     (\<exists>c s. at (rulesArr st) (lastCategoryIndex st) = Some c \<and>
        at (subcategories c) (lastSubcategoryIndex st) = Some s \<and>
        st' = st\<lparr>rulesArr := (rulesArr st)[nat (lastCategoryIndex st) :=
                   c\<lparr>subcategories := (subcategories c)[nat (lastSubcategoryIndex st) :=
                      s\<lparr>rules := rules s @ [\<lparr>r_id = k, r_rule = txt, subrules = []\<rparr>]\<rparr>]\<rparr>],
                 lastRuleIndex := indexOf (map r_id
                    (rules s @ [\<lparr>r_id = k, r_rule = txt, subrules = []\<rparr>])) k\<rparr>)"
  by (auto simp: ruleLine_def Let_def split: option.splits)

lemma subruleLine_Inr:
  "subruleLine st x txt = Inr st' \<longleftrightarrow>
     (\<exists>c s r. at (rulesArr st) (lastCategoryIndex st) = Some c \<and>
        at (subcategories c) (lastSubcategoryIndex st) = Some s \<and>
        at (rules s) (lastRuleIndex st) = Some r \<and>
        st' = st\<lparr>rulesArr := (rulesArr st)[nat (lastCategoryIndex st) :=
                   c\<lparr>subcategories := (subcategories c)[nat (lastSubcategoryIndex st) :=
                      s\<lparr>rules := (rules s)[nat (lastRuleIndex st) :=
                         r\<lparr>subrules := subrules r @ [\<lparr>sr_id = x, sr_rule = txt\<rparr>]\<rparr>]\<rparr>]\<rparr>]\<rparr>)"
  by (auto simp: subruleLine_def Let_def split: option.splits)

lemma set_update_cases: "x \<in> set (xs[k := v]) \<Longrightarrow> x = v \<or> x \<in> set xs"
  using set_update_subset_insert[of xs k v] by auto

lemma upd_grows:
  assumes "k < length xs" "R (xs ! k) v" "\<And>x. R x x"
  shows "\<forall>x\<in>set xs. \<exists>y\<in>set (xs[k := v]). R x y"
proof
  fix x assume "x \<in> set xs"
  then obtain j where j: "j < length xs" "xs ! j = x" by (auto simp: in_set_conv_nth)
  show "\<exists>y\<in>set (xs[k := v]). R x y"
  proof (cases "j = k")
    case True
    with assms j have "R x v" by simp
    moreover have "v \<in> set (xs[k := v])" using assms(1) by (simp add: set_update_memI)
    ultimately show ?thesis ..
  next
    case False
    with j have "xs[k := v] ! j = x" by simp
    with j have "x \<in> set (xs[k := v])" by (metis length_list_update nth_mem)
    with assms(3) show ?thesis by blast
  qed
qed

lemma ruleGrows_refl: "ruleGrows r r"
  by (simp add: ruleGrows_def)

lemma subcategoryGrows_refl: "subcategoryGrows s s"
  unfolding subcategoryGrows_def using ruleGrows_refl by blast

lemma categoryGrows_refl: "categoryGrows c c"
  unfolding categoryGrows_def using subcategoryGrows_refl by blast

lemma treeGrows_refl: "treeGrows t t"
  unfolding treeGrows_def using categoryGrows_refl by blast

lemma treeGrows_append: "treeGrows t (t @ u)"
  unfolding treeGrows_def
proof
  fix c assume "c \<in> set t"
  then have "c \<in> set (t @ u)" by simp
  with categoryGrows_refl show "\<exists>c'\<in>set (t @ u). categoryGrows c c'" by blast
qed

lemma ruleGrows_trans: "ruleGrows a b \<Longrightarrow> ruleGrows b c \<Longrightarrow> ruleGrows a c"
  by (auto simp: ruleGrows_def)

lemma subcategoryGrows_trans:
  "subcategoryGrows a b \<Longrightarrow> subcategoryGrows b c \<Longrightarrow> subcategoryGrows a c"
proof -
  assume ab: "subcategoryGrows a b" and bc: "subcategoryGrows b c"
  have "\<exists>r''\<in>set (rules c). ruleGrows r r''" if "r \<in> set (rules a)" for r
  proof -
    from ab that obtain r' where "r' \<in> set (rules b)" "ruleGrows r r'"
      unfolding subcategoryGrows_def by blast
    moreover from bc this(1) obtain r'' where "r'' \<in> set (rules c)" "ruleGrows r' r''"
      unfolding subcategoryGrows_def by blast
    ultimately show ?thesis using ruleGrows_trans by blast
  qed
  with ab bc show ?thesis unfolding subcategoryGrows_def by simp
qed

lemma categoryGrows_trans: "categoryGrows a b \<Longrightarrow> categoryGrows b c \<Longrightarrow> categoryGrows a c"
proof -
  assume ab: "categoryGrows a b" and bc: "categoryGrows b c"
  have "\<exists>s''\<in>set (subcategories c). subcategoryGrows s s''" if "s \<in> set (subcategories a)" for s
  proof -
    from ab that obtain s' where "s' \<in> set (subcategories b)" "subcategoryGrows s s'"
      unfolding categoryGrows_def by blast
    moreover from bc this(1) obtain s'' where "s'' \<in> set (subcategories c)"
      "subcategoryGrows s' s''"
      unfolding categoryGrows_def by blast
    ultimately show ?thesis using subcategoryGrows_trans by blast
  qed
  with ab bc show ?thesis unfolding categoryGrows_def by simp
qed

lemma treeGrows_trans: "treeGrows a b \<Longrightarrow> treeGrows b c \<Longrightarrow> treeGrows a c"
proof -
  assume ab: "treeGrows a b" and bc: "treeGrows b c"
  have "\<exists>x''\<in>set c. categoryGrows x x''" if "x \<in> set a" for x
  proof -
    from ab that obtain x' where "x' \<in> set b" "categoryGrows x x'"
      unfolding treeGrows_def by blast
    moreover from bc this(1) obtain x'' where "x'' \<in> set c" "categoryGrows x' x''"
      unfolding treeGrows_def by blast
    ultimately show ?thesis using categoryGrows_trans by blast
  qed
  then show ?thesis unfolding treeGrows_def by simp
qed

lemma treeGrows_update:
  "at t k = Some c \<Longrightarrow> categoryGrows c c' \<Longrightarrow> treeGrows t (t[nat k := c'])"
  unfolding treeGrows_def
  by (rule upd_grows) (auto simp: at_Some categoryGrows_refl)

lemma categoryGrows_update:
  "at (subcategories c) k = Some s \<Longrightarrow> subcategoryGrows s s' \<Longrightarrow>
     categoryGrows c (c\<lparr>subcategories := (subcategories c)[nat k := s']\<rparr>)"
  unfolding categoryGrows_def
  by (simp, rule upd_grows) (auto simp: at_Some subcategoryGrows_refl)

lemma subcategoryGrows_update:
  "at (rules s) k = Some r \<Longrightarrow> ruleGrows r r' \<Longrightarrow>
     subcategoryGrows s (s\<lparr>rules := (rules s)[nat k := r']\<rparr>)"
  unfolding subcategoryGrows_def
  by (simp, rule upd_grows) (auto simp: at_Some ruleGrows_refl)

lemma treeGrows_step:
  assumes "parseRulesLine st l = Inr st'"
  shows "treeGrows (rulesArr st) (rulesArr st')"
proof (cases "classify l")
  case (CategoryK i g)
  with assms have "categoryLine st i g = Inr st'" by (simp add: parseRulesLine_classify)
  then have "rulesArr st' = rulesArr st \<or> (\<exists>u. rulesArr st' = rulesArr st @ u)"
    by (auto simp: categoryLine_Inr)
  then show ?thesis using treeGrows_refl treeGrows_append by auto
next
  case (SubcategoryK j g)
  with assms have "subcategoryLine st j g = Inr st'" by (simp add: parseRulesLine_classify)
  then obtain c where c: "at (rulesArr st) (lastCategoryIndex st) = Some c"
    and arr: "rulesArr st' = (rulesArr st)[nat (lastCategoryIndex st) :=
                   c\<lparr>subcategories :=
                      (if j \<in> sc_id ` set (subcategories c) then subcategories c
                       else subcategories c @ [\<lparr>sc_id = j, sc_title = trim g, rules = []\<rparr>])\<rparr>]"
    by (auto simp: subcategoryLine_Inr)
  have "categoryGrows c (c\<lparr>subcategories :=
                      (if j \<in> sc_id ` set (subcategories c) then subcategories c
                       else subcategories c @ [\<lparr>sc_id = j, sc_title = trim g, rules = []\<rparr>])\<rparr>)"
    unfolding categoryGrows_def using subcategoryGrows_refl by auto
  from treeGrows_update[OF c this] show ?thesis unfolding arr .
next
  case (RuleK k tx)
  with assms have "ruleLine st k tx = Inr st'" by (simp add: parseRulesLine_classify)
  then obtain c s where c: "at (rulesArr st) (lastCategoryIndex st) = Some c"
    and s: "at (subcategories c) (lastSubcategoryIndex st) = Some s"
    and arr: "rulesArr st' = (rulesArr st)[nat (lastCategoryIndex st) :=
                   c\<lparr>subcategories := (subcategories c)[nat (lastSubcategoryIndex st) :=
                      s\<lparr>rules := rules s @ [\<lparr>r_id = k, r_rule = tx, subrules = []\<rparr>]\<rparr>]\<rparr>]"
    by (auto simp: ruleLine_Inr)
  have "subcategoryGrows s (s\<lparr>rules := rules s @ [\<lparr>r_id = k, r_rule = tx, subrules = []\<rparr>]\<rparr>)"
    unfolding subcategoryGrows_def using ruleGrows_refl by auto
  from treeGrows_update[OF c categoryGrows_update[OF s this]] show ?thesis unfolding arr .
next
  case (SubruleK x tx)
  with assms have "subruleLine st x tx = Inr st'" by (simp add: parseRulesLine_classify)
  then obtain c s r where c: "at (rulesArr st) (lastCategoryIndex st) = Some c"
    and s: "at (subcategories c) (lastSubcategoryIndex st) = Some s"
    and r: "at (rules s) (lastRuleIndex st) = Some r"
    and arr: "rulesArr st' = (rulesArr st)[nat (lastCategoryIndex st) :=
                   c\<lparr>subcategories := (subcategories c)[nat (lastSubcategoryIndex st) :=
                      s\<lparr>rules := (rules s)[nat (lastRuleIndex st) :=
                         r\<lparr>subrules := subrules r @ [\<lparr>sr_id = x, sr_rule = tx\<rparr>]\<rparr>]\<rparr>]\<rparr>]"
    by (auto simp: subruleLine_Inr)
  have "ruleGrows r (r\<lparr>subrules := subrules r @ [\<lparr>sr_id = x, sr_rule = tx\<rparr>]\<rparr>)"
    by (auto simp: ruleGrows_def)
  from treeGrows_update[OF c categoryGrows_update[OF s subcategoryGrows_update[OF r this]]]
  show ?thesis unfolding arr .
next
  case IgnoredK
  with assms show ?thesis by (simp add: parseRulesLine_classify treeGrows_refl)
qed

lemma treeGrows_forEach:
  "forEach parseRulesLine ls st = Inr st' \<Longrightarrow> treeGrows (rulesArr st) (rulesArr st')"
proof (induction ls arbitrary: st)
  case Nil
  then show ?case by (simp add: treeGrows_refl)
next
  case (Cons l ls)
  then obtain st1 where "parseRulesLine st l = Inr st1" "forEach parseRulesLine ls st1 = Inr st'"
    by (auto split: sum.splits)
  with Cons.IH show ?case using treeGrows_step treeGrows_trans by blast
qed

lemma hasSubcategory_grows:
  assumes g: "treeGrows t t'" and h: "hasSubcategory t ci si"
  shows "hasSubcategory t' ci si"
proof -
  from h obtain c s where c: "c \<in> set t" "c_id c = ci" and s: "s \<in> set (subcategories c)"
    "sc_id s = si" unfolding hasSubcategory_def by blast
  from g c(1) obtain c' where c': "c' \<in> set t'" "categoryGrows c c'"
    unfolding treeGrows_def by blast
  from c'(2) s(1) obtain s' where s': "s' \<in> set (subcategories c')" "subcategoryGrows s s'"
    unfolding categoryGrows_def by blast
  from c c' s s' show ?thesis
    unfolding hasSubcategory_def categoryGrows_def subcategoryGrows_def by auto
qed

lemma hasRule_grows:
  assumes g: "treeGrows t t'" and h: "hasRule t ci si ri txt"
  shows "hasRule t' ci si ri txt"
proof -
  from h obtain c s r where c: "c \<in> set t" "c_id c = ci" and s: "s \<in> set (subcategories c)"
    "sc_id s = si" and r: "r \<in> set (rules s)" "r_id r = ri" "r_rule r = txt"
    unfolding hasRule_def by blast
  from g c(1) obtain c' where c': "c' \<in> set t'" "categoryGrows c c'"
    unfolding treeGrows_def by blast
  from c'(2) s(1) obtain s' where s': "s' \<in> set (subcategories c')" "subcategoryGrows s s'"
    unfolding categoryGrows_def by blast
  from s'(2) r(1) obtain r' where r': "r' \<in> set (rules s')" "ruleGrows r r'"
    unfolding subcategoryGrows_def by blast
  from c c' s s' r r' show ?thesis
    unfolding hasRule_def categoryGrows_def subcategoryGrows_def ruleGrows_def by auto
qed


lemma cursorOk_cat:
  "cursorOk st (Some ci, None, cr) \<longleftrightarrow>
     (\<exists>c. at (rulesArr st) (lastCategoryIndex st) = Some c \<and> c_id c = ci)"
  by (auto simp: cursorOk_def split: option.splits)

lemma cursorOk_sub:
  "cursorOk st (Some ci, Some si, None) \<longleftrightarrow>
     (\<exists>c s. at (rulesArr st) (lastCategoryIndex st) = Some c \<and> c_id c = ci
        \<and> at (subcategories c) (lastSubcategoryIndex st) = Some s \<and> sc_id s = si)"
  by (auto simp: cursorOk_def split: option.splits)

lemma cursorOk_rule:
  "cursorOk st (Some ci, Some si, Some ri) \<longleftrightarrow>
     (\<exists>c s r. at (rulesArr st) (lastCategoryIndex st) = Some c \<and> c_id c = ci
        \<and> at (subcategories c) (lastSubcategoryIndex st) = Some s \<and> sc_id s = si
        \<and> at (rules s) (lastRuleIndex st) = Some r \<and> r_id r = ri)"
  by (auto simp: cursorOk_def split: option.splits)

lemma cursorOk_category_known:
  "cursorOk st (cc, cs, cr) \<Longrightarrow> at (rulesArr st) (lastCategoryIndex st) = Some c \<Longrightarrow>
     cc = Some (c_id c)"
  by (cases cc) (auto simp: cursorOk_def at_def split: option.splits if_splits)

lemma cursorOk_category:
  assumes "categoryLine st i g = Inr st'"
  shows "cursorOk st' (Some i, None, None)"
proof -
  let ?arr = "if i \<in> c_id ` set (rulesArr st) then rulesArr st
              else rulesArr st @ [\<lparr>c_id = i, c_title = trim g, subcategories = []\<rparr>]"
  from assms have st': "rulesArr st' = ?arr" "lastCategoryIndex st' = indexOf (map c_id ?arr) i"
    by (simp_all add: categoryLine_Inr)
  have "i \<in> c_id ` set ?arr" by auto
  from at_indexOf_map[OF this] show ?thesis
    unfolding cursorOk_cat st' by blast
qed

lemma cursorOk_subcategory:
  assumes ok: "cursorOk st (cc, cs, cr)" and step: "subcategoryLine st j g = Inr st'"
  shows "\<exists>ci. cc = Some ci \<and> cursorOk st' (Some ci, Some j, None)
           \<and> hasSubcategory (rulesArr st') ci j"
proof -
  from step obtain c where c: "at (rulesArr st) (lastCategoryIndex st) = Some c"
    and st': "st' = st\<lparr>rulesArr := (rulesArr st)[nat (lastCategoryIndex st) :=
                   c\<lparr>subcategories :=
                      (if j \<in> sc_id ` set (subcategories c) then subcategories c
                       else subcategories c @ [\<lparr>sc_id = j, sc_title = trim g, rules = []\<rparr>])\<rparr>],
                 lastSubcategoryIndex := indexOf (map sc_id
                      (if j \<in> sc_id ` set (subcategories c) then subcategories c
                       else subcategories c @ [\<lparr>sc_id = j, sc_title = trim g, rules = []\<rparr>])) j\<rparr>"
    unfolding subcategoryLine_Inr by blast
  let ?subs = "if j \<in> sc_id ` set (subcategories c) then subcategories c
               else subcategories c @ [\<lparr>sc_id = j, sc_title = trim g, rules = []\<rparr>]"
  let ?c = "c\<lparr>subcategories := ?subs\<rparr>"
  from cursorOk_category_known[OF ok c] have cc: "cc = Some (c_id c)" .
  have a: "at (rulesArr st') (lastCategoryIndex st') = Some ?c"
    unfolding st' using at_update[OF c] by simp
  have j: "j \<in> sc_id ` set ?subs" by auto
  from at_indexOf_map[OF j] obtain s where
    s: "at ?subs (indexOf (map sc_id ?subs) j) = Some s" "sc_id s = j" by blast
  have b: "at (subcategories ?c) (lastSubcategoryIndex st') = Some s"
    unfolding st' using s(1) by simp
  have ok': "cursorOk st' (Some (c_id c), Some j, None)"
    unfolding cursorOk_sub using a b s(2) by auto
  have "?c \<in> set (rulesArr st')" using a by (rule at_in_set)
  moreover have "s \<in> set (subcategories ?c)" using b by (rule at_in_set)
  ultimately have "hasSubcategory (rulesArr st') (c_id c) j"
    unfolding hasSubcategory_def using s(2) by (intro bexI[of _ ?c] conjI bexI[of _ s]) simp_all
  with cc ok' show ?thesis by simp
qed

lemma cursorOk_rule_step:
  assumes ok: "cursorOk st (cc, cs, cr)" and step: "ruleLine st k tx = Inr st'"
  shows "\<exists>ci. cc = Some ci \<and> cursorOk st' (Some ci, cs, Some k)
           \<and> (\<forall>si. cs = Some si \<longrightarrow> hasRule (rulesArr st') ci si k tx)"
proof -
  from step obtain c s where c: "at (rulesArr st) (lastCategoryIndex st) = Some c"
    and s: "at (subcategories c) (lastSubcategoryIndex st) = Some s"
    and st': "st' = st\<lparr>rulesArr := (rulesArr st)[nat (lastCategoryIndex st) :=
                   c\<lparr>subcategories := (subcategories c)[nat (lastSubcategoryIndex st) :=
                      s\<lparr>rules := rules s @ [\<lparr>r_id = k, r_rule = tx, subrules = []\<rparr>]\<rparr>]\<rparr>],
                 lastRuleIndex := indexOf (map r_id
                    (rules s @ [\<lparr>r_id = k, r_rule = tx, subrules = []\<rparr>])) k\<rparr>"
    unfolding ruleLine_Inr by blast
  let ?new = "\<lparr>r_id = k, r_rule = tx, subrules = []\<rparr>"
  let ?rs = "rules s @ [?new]"
  let ?s = "s\<lparr>rules := ?rs\<rparr>"
  let ?c = "c\<lparr>subcategories := (subcategories c)[nat (lastSubcategoryIndex st) := ?s]\<rparr>"
  from cursorOk_category_known[OF ok c] have cc: "cc = Some (c_id c)" .
  have a: "at (rulesArr st') (lastCategoryIndex st') = Some ?c"
    unfolding st' using at_update[OF c] by simp
  have b: "at (subcategories ?c) (lastSubcategoryIndex st') = Some ?s"
    unfolding st' using at_update[OF s] by simp
  have k: "k \<in> r_id ` set ?rs" by simp
  from at_indexOf_map[OF k] obtain r where
    r: "at ?rs (indexOf (map r_id ?rs) k) = Some r" "r_id r = k" by blast
  have d: "at (rules ?s) (lastRuleIndex st') = Some r"
    unfolding st' using r(1) by simp
  have sid: "sc_id s = si" if "cs = Some si" for si
    using ok c s that unfolding cc by (auto simp: cursorOk_def split: option.splits)
  have ok': "cursorOk st' (Some (c_id c), cs, Some k)"
  proof (cases cs)
    case None
    then show ?thesis using a by (auto simp: cursorOk_def split: option.splits)
  next
    case (Some si)
    with sid have "sc_id ?s = si" by simp
    with Some a b d r(2) show ?thesis unfolding Some cursorOk_rule by auto
  qed
  have "hasRule (rulesArr st') (c_id c) si k tx" if "cs = Some si" for si
  proof -
    have "?c \<in> set (rulesArr st')" using a by (rule at_in_set)
    moreover have "?s \<in> set (subcategories ?c)" using b by (rule at_in_set)
    moreover have "?new \<in> set (rules ?s)" by simp
    ultimately show ?thesis
      unfolding hasRule_def using sid[OF that]
      by (intro bexI[of _ ?c] conjI bexI[of _ ?s] bexI[of _ ?new]) simp_all
  qed
  with cc ok' show ?thesis by simp
qed

lemma cursorOk_subrule_step:
  assumes ok: "cursorOk st (cc, cs, cr)" and step: "subruleLine st x tx = Inr st'"
  shows "\<exists>ci. cc = Some ci \<and> cursorOk st' (cc, cs, cr)
           \<and> (\<forall>si ri. cs = Some si \<and> cr = Some ri \<longrightarrow> hasSubrule (rulesArr st') ci si ri x tx)"
proof -
  from step obtain c s r where c: "at (rulesArr st) (lastCategoryIndex st) = Some c"
    and s: "at (subcategories c) (lastSubcategoryIndex st) = Some s"
    and r: "at (rules s) (lastRuleIndex st) = Some r"
    and st': "st' = st\<lparr>rulesArr := (rulesArr st)[nat (lastCategoryIndex st) :=
                   c\<lparr>subcategories := (subcategories c)[nat (lastSubcategoryIndex st) :=
                      s\<lparr>rules := (rules s)[nat (lastRuleIndex st) :=
                         r\<lparr>subrules := subrules r @ [\<lparr>sr_id = x, sr_rule = tx\<rparr>]\<rparr>]\<rparr>]\<rparr>]\<rparr>"
    unfolding subruleLine_Inr by blast
  let ?new = "\<lparr>sr_id = x, sr_rule = tx\<rparr>"
  let ?r = "r\<lparr>subrules := subrules r @ [?new]\<rparr>"
  let ?s = "s\<lparr>rules := (rules s)[nat (lastRuleIndex st) := ?r]\<rparr>"
  let ?c = "c\<lparr>subcategories := (subcategories c)[nat (lastSubcategoryIndex st) := ?s]\<rparr>"
  from cursorOk_category_known[OF ok c] have cc: "cc = Some (c_id c)" .
  have a: "at (rulesArr st') (lastCategoryIndex st') = Some ?c"
    unfolding st' using at_update[OF c] by simp
  have b: "at (subcategories ?c) (lastSubcategoryIndex st') = Some ?s"
    unfolding st' using at_update[OF s] by simp
  have d: "at (rules ?s) (lastRuleIndex st') = Some ?r"
    unfolding st' using at_update[OF r] by simp
  have sid: "sc_id s = si" if "cs = Some si" for si
    using ok c s that unfolding cc by (auto simp: cursorOk_def split: option.splits)
  have rid: "r_id r = ri" if "cs = Some si" "cr = Some ri" for si ri
    using ok c s r that unfolding cc by (auto simp: cursorOk_def split: option.splits)
  have ok': "cursorOk st' (Some (c_id c), cs, cr)"
  proof (cases cs)
    case None
    then show ?thesis using a by (auto simp: cursorOk_def split: option.splits)
  next
    case (Some si)
    note si = this
    show ?thesis
    proof (cases cr)
      case None
      with si a b sid[OF si] show ?thesis unfolding si None cursorOk_sub by auto
    next
      case (Some ri)
      with si a b d sid[OF si] rid[OF si Some] show ?thesis
        unfolding si Some cursorOk_rule by auto
    qed
  qed
  have "hasSubrule (rulesArr st') (c_id c) si ri x tx" if "cs = Some si \<and> cr = Some ri" for si ri
  proof -
    have "?c \<in> set (rulesArr st')" using a by (rule at_in_set)
    moreover have "?s \<in> set (subcategories ?c)" using b by (rule at_in_set)
    moreover have "?r \<in> set (rules ?s)" using d by (rule at_in_set)
    moreover have "?new \<in> set (subrules ?r)" by simp
    ultimately show ?thesis
      unfolding hasSubrule_def using sid[of si] rid[of si ri] that
      by (intro bexI[of _ ?c] conjI bexI[of _ ?s] bexI[of _ ?r] bexI[of _ ?new]) simp_all
  qed
  with cc ok' show ?thesis by simp
qed

lemma cursorOk_step:
  assumes ok: "cursorOk st ids" and step: "parseRulesLine st l = Inr st'"
  shows "cursorOk st' (cursorStep ids (classify l))"
proof -
  obtain cc cs cr where ids: "ids = (cc, cs, cr)" by (cases ids) auto
  show ?thesis
  proof (cases "classify l")
    case (CategoryK i g)
    with step have "categoryLine st i g = Inr st'" by (simp add: parseRulesLine_classify)
    from cursorOk_category[OF this] show ?thesis by (simp add: ids CategoryK)
  next
    case (SubcategoryK j g)
    with step have "subcategoryLine st j g = Inr st'" by (simp add: parseRulesLine_classify)
    from cursorOk_subcategory[OF ok[unfolded ids] this] show ?thesis
      by (auto simp: ids SubcategoryK)
  next
    case (RuleK k tx)
    with step have "ruleLine st k tx = Inr st'" by (simp add: parseRulesLine_classify)
    from cursorOk_rule_step[OF ok[unfolded ids] this] show ?thesis
      by (auto simp: ids RuleK)
  next
    case (SubruleK x tx)
    with step have "subruleLine st x tx = Inr st'" by (simp add: parseRulesLine_classify)
    from cursorOk_subrule_step[OF ok[unfolded ids] this] show ?thesis
      by (auto simp: ids SubruleK)
  next
    case IgnoredK
    with step ok show ?thesis by (simp add: parseRulesLine_classify ids)
  qed
qed

lemma cursorIdsAfter_snoc:
  "cursorIdsAfter (xs @ [x]) = cursorStep (cursorIdsAfter xs) (classify x)"
  by (simp add: cursorIdsAfter_def)

lemma cursorOk_forEach:
  "forEach parseRulesLine ls initRules = Inr st \<Longrightarrow> cursorOk st (cursorIdsAfter ls)"
proof (induction ls arbitrary: st rule: rev_induct)
  case Nil
  then show ?case by (auto simp: cursorIdsAfter_def cursorOk_def initRules_def)
next
  case (snoc x xs)
  from forEach_snoc_Inr[OF snoc.prems] obtain st0 where
    0: "forEach parseRulesLine xs initRules = Inr st0" and 1: "parseRulesLine st0 x = Inr st"
    by blast
  from cursorOk_step[OF snoc.IH[OF 0] 1] show ?case by (simp add: cursorIdsAfter_snoc)
qed

lemma list_all_update: "list_all Q xs \<Longrightarrow> Q v \<Longrightarrow> list_all Q (xs[k := v])"
  by (auto simp: list_all_iff dest: set_update_cases)

lemma dedupOk_update:
  assumes "dedupOk t" "at t k = Some c" "c_id c' = c_id c"
    "distinct (map sc_id (subcategories c'))"
  shows "dedupOk (t[nat k := c'])"
proof -
  from assms(2,3) have "map c_id (t[nat k := c']) = map c_id t"
    by (intro map_upd_same) (simp add: at_Some)
  with assms(1,4) show ?thesis
    by (simp add: dedupOk_def list_all_update)
qed

lemma dedupOk_at:
  "dedupOk t \<Longrightarrow> at t k = Some c \<Longrightarrow> distinct (map sc_id (subcategories c))"
  by (auto simp: dedupOk_def list_all_iff dest: at_in_set)

lemma sub_ids_update:
  "at subs k = Some s \<Longrightarrow> sc_id s' = sc_id s \<Longrightarrow> map sc_id (subs[nat k := s']) = map sc_id subs"
  by (intro map_upd_same) (simp add: at_Some)

lemma dedupOk_step:
  assumes ok: "dedupOk (rulesArr st)" and step: "parseRulesLine st l = Inr st'"
  shows "dedupOk (rulesArr st')"
proof (cases "classify l")
  case (CategoryK i g)
  with step have "categoryLine st i g = Inr st'" by (simp add: parseRulesLine_classify)
  with ok show ?thesis by (auto simp: categoryLine_Inr dedupOk_def)
next
  case (SubcategoryK j g)
  with step have "subcategoryLine st j g = Inr st'" by (simp add: parseRulesLine_classify)
  then obtain c where c: "at (rulesArr st) (lastCategoryIndex st) = Some c"
    and arr: "rulesArr st' = (rulesArr st)[nat (lastCategoryIndex st) :=
                   c\<lparr>subcategories :=
                      (if j \<in> sc_id ` set (subcategories c) then subcategories c
                       else subcategories c @ [\<lparr>sc_id = j, sc_title = trim g, rules = []\<rparr>])\<rparr>]"
    by (auto simp: subcategoryLine_Inr)
  show ?thesis unfolding arr
    using dedupOk_at[OF ok c] by (intro dedupOk_update[OF ok c]) auto
next
  case (RuleK k tx)
  with step have "ruleLine st k tx = Inr st'" by (simp add: parseRulesLine_classify)
  then obtain c s where c: "at (rulesArr st) (lastCategoryIndex st) = Some c"
    and s: "at (subcategories c) (lastSubcategoryIndex st) = Some s"
    and arr: "rulesArr st' = (rulesArr st)[nat (lastCategoryIndex st) :=
                   c\<lparr>subcategories := (subcategories c)[nat (lastSubcategoryIndex st) :=
                      s\<lparr>rules := rules s @ [\<lparr>r_id = k, r_rule = tx, subrules = []\<rparr>]\<rparr>]\<rparr>]"
    by (auto simp: ruleLine_Inr)
  show ?thesis unfolding arr
    using dedupOk_at[OF ok c] by (intro dedupOk_update[OF ok c]) (simp_all add: sub_ids_update[OF s])
next
  case (SubruleK x tx)
  with step have "subruleLine st x tx = Inr st'" by (simp add: parseRulesLine_classify)
  then obtain c s r where c: "at (rulesArr st) (lastCategoryIndex st) = Some c"
    and s: "at (subcategories c) (lastSubcategoryIndex st) = Some s"
    and arr: "rulesArr st' = (rulesArr st)[nat (lastCategoryIndex st) :=
                   c\<lparr>subcategories := (subcategories c)[nat (lastSubcategoryIndex st) :=
                      s\<lparr>rules := (rules s)[nat (lastRuleIndex st) :=
                         r\<lparr>subrules := subrules r @ [\<lparr>sr_id = x, sr_rule = tx\<rparr>]\<rparr>]\<rparr>]\<rparr>]"
    by (auto simp: subruleLine_Inr)
  show ?thesis unfolding arr
    using dedupOk_at[OF ok c] by (intro dedupOk_update[OF ok c]) (simp_all add: sub_ids_update[OF s])
next
  case IgnoredK
  with step ok show ?thesis by (simp add: parseRulesLine_classify)
qed

lemma dedupOk_forEach:
  "dedupOk (rulesArr st) \<Longrightarrow> forEach parseRulesLine ls st = Inr st' \<Longrightarrow> dedupOk (rulesArr st')"
proof (induction ls arbitrary: st)
  case Nil
  then show ?case by simp
next
  case (Cons l ls)
  then show ?case by (auto split: sum.splits dest: dedupOk_step)
qed










lemma parseRules_Inr:
  "parseRules ls = Inr t \<longleftrightarrow>
     (\<exists>st. forEach parseRulesLine ls initRules = Inr st \<and> rulesArr st = t)"
  by (auto simp: parseRules_def split: sum.splits)

lemma dedupOk_run:
  "forEach parseRulesLine ls initRules = Inr st \<Longrightarrow> dedupOk (rulesArr st)"
  by (rule dedupOk_forEach[of initRules]) (simp_all add: dedupOk_def initRules_def)

text \<open>A run over \<open>pre @ l # post\<close>, cut at the line \<open>l\<close>.\<close>

lemma run_cut:
  assumes "forEach parseRulesLine (pre @ l # post) initRules = Inr st"
  obtains st0 st1 where "forEach parseRulesLine pre initRules = Inr st0"
    and "parseRulesLine st0 l = Inr st1"
    and "cursorOk st0 (cursorIdsAfter pre)"
    and "treeGrows (rulesArr st1) (rulesArr st)"
proof -
  from assms obtain st0 where 0: "forEach parseRulesLine pre initRules = Inr st0"
    and r: "forEach parseRulesLine (l # post) st0 = Inr st"
    by (auto simp: forEach_append split: sum.splits)
  from r obtain st1 where 1: "parseRulesLine st0 l = Inr st1"
    and 2: "forEach parseRulesLine post st1 = Inr st"
    by (auto split: sum.splits)
  from that[OF 0 1 cursorOk_forEach[OF 0] treeGrows_forEach[OF 2]] show ?thesis .
qed

lemma attach_subcategory:
  assumes "parseRules (pre @ l # post) = Inr t" "classify l = SubcategoryK j g"
  shows "\<exists>ci. currentCategory pre = Some ci \<and> hasSubcategory t ci j"
proof -
  from assms(1) obtain st where st: "forEach parseRulesLine (pre @ l # post) initRules = Inr st"
    "rulesArr st = t" by (auto simp: parseRules_Inr)
  from run_cut[OF st(1)] obtain st0 st1 where 1: "parseRulesLine st0 l = Inr st1"
    and ok: "cursorOk st0 (cursorIdsAfter pre)"
    and g: "treeGrows (rulesArr st1) (rulesArr st)" by blast
  obtain cc cs cr where ids: "cursorIdsAfter pre = (cc, cs, cr)" by (cases "cursorIdsAfter pre") auto
  from 1 assms(2) have "subcategoryLine st0 j g = Inr st1" by (simp add: parseRulesLine_classify)
  from cursorOk_subcategory[OF ok[unfolded ids] this] obtain ci where
    "cc = Some ci" "hasSubcategory (rulesArr st1) ci j" by blast
  with hasSubcategory_grows[OF g] st(2) ids show ?thesis
    by (auto simp: currentCategory_def)
qed

lemma attach_rule:
  assumes "parseRules (pre @ l # post) = Inr t" "classify l = RuleK k tx"
    "currentSubcategory pre = Some si"
  shows "\<exists>ci. currentCategory pre = Some ci \<and> hasRule t ci si k tx"
proof -
  from assms(1) obtain st where st: "forEach parseRulesLine (pre @ l # post) initRules = Inr st"
    "rulesArr st = t" by (auto simp: parseRules_Inr)
  from run_cut[OF st(1)] obtain st0 st1 where 1: "parseRulesLine st0 l = Inr st1"
    and ok: "cursorOk st0 (cursorIdsAfter pre)"
    and g: "treeGrows (rulesArr st1) (rulesArr st)" by blast
  obtain cc cs cr where ids: "cursorIdsAfter pre = (cc, cs, cr)" by (cases "cursorIdsAfter pre") auto
  with assms(3) have cs: "cs = Some si" by (simp add: currentSubcategory_def)
  from 1 assms(2) have "ruleLine st0 k tx = Inr st1" by (simp add: parseRulesLine_classify)
  from cursorOk_rule_step[OF ok[unfolded ids] this] cs obtain ci where
    "cc = Some ci" "hasRule (rulesArr st1) ci si k tx" by blast
  with hasRule_grows[OF g] st(2) ids show ?thesis
    by (auto simp: currentCategory_def)
qed


lemma attach_category:
  assumes "parseRules (pre @ l # post) = Inr t" "classify l = CategoryK i g"
  shows "i \<in> c_id ` set t"
proof -
  from assms(1) obtain st where st: "forEach parseRulesLine (pre @ l # post) initRules = Inr st"
    "rulesArr st = t" by (auto simp: parseRules_Inr)
  from run_cut[OF st(1)] obtain st0 st1 where 1: "parseRulesLine st0 l = Inr st1"
    and g: "treeGrows (rulesArr st1) (rulesArr st)" by blast
  from 1 assms(2) have "categoryLine st0 i g = Inr st1" by (simp add: parseRulesLine_classify)
  from cursorOk_category[OF this] obtain c where "c \<in> set (rulesArr st1)" "c_id c = i"
    unfolding cursorOk_cat by (auto dest: at_in_set)
  with g obtain c' where "c' \<in> set (rulesArr st)" "c_id c' = i"
    unfolding treeGrows_def categoryGrows_def by metis
  with st(2) show ?thesis by auto
qed

lemma filter_unique:
  "distinct (map f xs) \<Longrightarrow> x \<in> set xs \<Longrightarrow> filter (\<lambda>y. f y = f x) xs = [x]"
proof (induction xs)
  case Nil
  then show ?case by simp
next
  case (Cons a xs)
  show ?case
  proof (cases "a = x")
    case True
    with Cons.prems have "f x \<notin> f ` set xs" by simp
    then have "\<forall>y\<in>set xs. f y \<noteq> f x" by (metis image_eqI)
    then have "filter (\<lambda>y. f y = f x) xs = []" by (simp add: filter_empty_conv)
    with True show ?thesis by simp
  next
    case False
    with Cons.prems have "x \<in> set xs" "f a \<noteq> f x" by auto
    with Cons show ?thesis by simp
  qed
qed

lemma category_once:
  assumes "parseRules lines = Inr t" "l \<in> set lines" "classify l = CategoryK i g"
  shows "length (filter (\<lambda>c. c_id c = i) t) = 1"
proof -
  from assms(2) obtain pre post where "lines = pre @ l # post" by (auto simp: in_set_conv_decomp)
  with assms(1,3) have "i \<in> c_id ` set t" using attach_category by blast
  then obtain c where c: "c \<in> set t" "c_id c = i" by auto
  from assms(1) have "distinct (map c_id t)"
    by (auto simp: parseRules_Inr dest!: dedupOk_run simp: dedupOk_def)
  from filter_unique[OF this c(1)] c(2) show ?thesis by simp
qed

lemma subcategory_once:
  assumes "parseRules (pre @ h # post) = Inr t" "classify h = SubcategoryK j g"
  shows "\<exists>ci c. currentCategory pre = Some ci \<and> filter (\<lambda>c. c_id c = ci) t = [c]
           \<and> length (filter (\<lambda>s. sc_id s = j) (subcategories c)) = 1"
proof -
  from attach_subcategory[OF assms] obtain ci where ci: "currentCategory pre = Some ci"
    and h: "hasSubcategory t ci j" by blast
  from h obtain c s where c: "c \<in> set t" "c_id c = ci"
    and s: "s \<in> set (subcategories c)" "sc_id s = j"
    unfolding hasSubcategory_def by blast
  from assms(1) have d: "dedupOk t" by (auto simp: parseRules_Inr dest: dedupOk_run)
  then have d1: "distinct (map c_id t)" and d2: "distinct (map sc_id (subcategories c))"
    using c(1) by (auto simp: dedupOk_def list_all_iff)
  from filter_unique[OF d1 c(1)] c(2) have "filter (\<lambda>c. c_id c = ci) t = [c]" by simp
  moreover from filter_unique[OF d2 s(1)] s(2)
  have "length (filter (\<lambda>s. sc_id s = j) (subcategories c)) = 1" by simp
  ultimately show ?thesis using ci by blast
qed

lemma parseRules_snoc:
  "forEach parseRulesLine pre initRules = Inr st0 \<Longrightarrow> parseRulesLine st0 h = Inr st1 \<Longrightarrow>
     parseRules (pre @ [h]) = Inr (rulesArr st1)"
  by (simp add: parseRules_def forEach_snoc)

lemma category_again:
  assumes "parseRules pre = Inr t" "classify h = CategoryK i g" "i \<in> c_id ` set t"
  shows "parseRules (pre @ [h]) = Inr t"
proof -
  from assms(1) obtain st0 where st0: "forEach parseRulesLine pre initRules = Inr st0"
    "rulesArr st0 = t" by (auto simp: parseRules_Inr)
  let ?st1 = "st0\<lparr>rulesArr := t, lastCategoryIndex := indexOf (map c_id t) i\<rparr>"
  have "parseRulesLine st0 h = Inr ?st1"
    using assms(2,3) st0(2)
    by (simp add: parseRulesLine_classify categoryLine_Inr[of st0 i g ?st1])
  from parseRules_snoc[OF st0(1) this] show ?thesis by simp
qed

lemma subcategory_again:
  assumes "parseRules pre = Inr t" "classify h = SubcategoryK j g"
    "currentCategory pre = Some ci" "hasSubcategory t ci j"
  shows "parseRules (pre @ [h]) = Inr t"
proof -
  from assms(1) obtain st0 where st0: "forEach parseRulesLine pre initRules = Inr st0"
    "rulesArr st0 = t" by (auto simp: parseRules_Inr)
  obtain cc cs cr where ids: "cursorIdsAfter pre = (cc, cs, cr)" by (cases "cursorIdsAfter pre") auto
  with assms(3) have cc: "cc = Some ci" by (simp add: currentCategory_def)
  from cursorOk_forEach[OF st0(1)] have "cursorOk st0 (Some ci, None, None)"
    unfolding ids cc by (auto simp: cursorOk_def split: option.splits)
  then obtain c where c: "at t (lastCategoryIndex st0) = Some c" "c_id c = ci"
    unfolding cursorOk_cat st0(2) by blast
  from assms(4) obtain c' where c': "c' \<in> set t" "c_id c' = ci" "j \<in> sc_id ` set (subcategories c')"
    unfolding hasSubcategory_def by auto
  from dedupOk_run[OF st0(1)] st0(2) have "distinct (map c_id t)" by (simp add: dedupOk_def)
  with c c' have "c' = c"
    by (metis at_in_set distinct_map inj_on_eq_iff)
  with c' have j: "j \<in> sc_id ` set (subcategories c)" by simp
  have same: "t[nat (lastCategoryIndex st0) := c] = t"
    using c(1) by (simp add: at_Some list_update_same_conv)
  let ?st1 = "st0\<lparr>rulesArr := t,
      lastSubcategoryIndex := indexOf (map sc_id (subcategories c)) j\<rparr>"
  have "subcategoryLine st0 j g = Inr ?st1"
    unfolding subcategoryLine_Inr st0(2) using c(1) j same
    by (intro exI[of _ c]) simp
  with assms(2) have "parseRulesLine st0 h = Inr ?st1" by (simp add: parseRulesLine_classify)
  from parseRules_snoc[OF st0(1) this] show ?thesis by simp
qed

lemma cursorStep_fst:
  "(\<And>i g. k \<noteq> CategoryK i g) \<Longrightarrow> fst (cursorStep ids k) = fst ids"
  by (cases ids; cases k) auto

lemma cursorStep_snd:
  "(\<And>i g. k \<noteq> CategoryK i g) \<Longrightarrow> (\<And>i g. k \<noteq> SubcategoryK i g) \<Longrightarrow>
     fst (snd (cursorStep ids k)) = fst (snd ids)"
  by (cases ids; cases k) auto

lemma currentCategory_after:
  "classify h = CategoryK i g \<Longrightarrow> list_all (\<lambda>m. \<not> categoryLineK m) mid \<Longrightarrow>
     currentCategory (p @ h # mid) = Some i"
proof (induction mid rule: rev_induct)
  case Nil
  then show ?case
    using cursorIdsAfter_snoc[of p h]
    by (cases "cursorIdsAfter p") (simp add: currentCategory_def)
next
  case (snoc m mid)
  then have ih: "currentCategory (p @ h # mid) = Some i" and m: "\<not> categoryLineK m" by simp_all
  from m have "fst (cursorStep (cursorIdsAfter (p @ h # mid)) (classify m))
      = fst (cursorIdsAfter (p @ h # mid))"
    by (intro cursorStep_fst) (auto simp: categoryLineK_def)
  with ih show ?case
    using cursorIdsAfter_snoc[of "p @ h # mid" m] by (simp add: currentCategory_def)
qed

lemma currentSubcategory_after:
  "classify h = SubcategoryK j g \<Longrightarrow> list_all (\<lambda>m. \<not> headerLineK m) mid \<Longrightarrow>
     currentSubcategory (p @ h # mid) = Some j
     \<and> currentCategory (p @ h # mid) = currentCategory p"
proof (induction mid rule: rev_induct)
  case Nil
  then show ?case
    using cursorIdsAfter_snoc[of p h]
    by (cases "cursorIdsAfter p") (simp add: currentCategory_def currentSubcategory_def)
next
  case (snoc m mid)
  then have ih: "currentSubcategory (p @ h # mid) = Some j"
    "currentCategory (p @ h # mid) = currentCategory p" and m: "\<not> headerLineK m" by simp_all
  from m have "fst (cursorStep (cursorIdsAfter (p @ h # mid)) (classify m))
      = fst (cursorIdsAfter (p @ h # mid))"
    "fst (snd (cursorStep (cursorIdsAfter (p @ h # mid)) (classify m)))
      = fst (snd (cursorIdsAfter (p @ h # mid)))"
    by (auto intro!: cursorStep_fst cursorStep_snd simp: headerLineK_def)
  with ih show ?case
    using cursorIdsAfter_snoc[of "p @ h # mid" m]
    by (simp add: currentCategory_def currentSubcategory_def)
qed

lemma subcategory_after_category:
  assumes "parseRules (p @ h # mid @ s # q) = Inr u" "classify h = CategoryK i g"
    "list_all (\<lambda>m. \<not> categoryLineK m) mid" "classify s = SubcategoryK j g'"
  shows "hasSubcategory u i j"
proof -
  from assms(1) have "parseRules ((p @ h # mid) @ s # q) = Inr u" by simp
  from attach_subcategory[OF this assms(4)] currentCategory_after[OF assms(2,3), of p]
  show ?thesis by simp
qed

lemma rule_after_subcategory:
  assumes "parseRules (p @ h # mid @ s # q) = Inr u" "classify h = SubcategoryK j g"
    "list_all (\<lambda>m. \<not> headerLineK m) mid" "classify s = RuleK k tx"
  shows "\<exists>ci. currentCategory p = Some ci \<and> hasRule u ci j k tx"
proof -
  from assms(1) have "parseRules ((p @ h # mid) @ s # q) = Inr u" by simp
  from attach_rule[OF this assms(4)] currentSubcategory_after[OF assms(2,3), of p]
  show ?thesis by simp
qed

lemmas evr = ev classify_def cursorIdsAfter_def currentCategory_def currentSubcategory_def
  currentRule_def hasSubcategory_def hasRule_def hasSubrule_def ruleIdOf_def subruleIdOf_def
  ruleIds_def subruleIds_def categoryLineK_def headerLineK_def


text \<open>
  Claim C4, as stated, fails: a Subcategory header is looked up among the subcategories
  of the current category only. Fed once under category 1 and once more under category
  2, it gives two subcategories of that id, one in each.
\<close>

theorem subcategory_repeated_under_two_categories:
  "parseRules [js ''1. Game Concepts'', js ''100. General'', js ''2. Parts'', js ''100. General'']
     = Inr [\<lparr>c_id = js ''1'', c_title = js ''Game Concepts'', subcategories =
             [\<lparr>sc_id = js ''100'', sc_title = js ''General'', rules = []\<rparr>]\<rparr>,
            \<lparr>c_id = js ''2'', c_title = js ''Parts'', subcategories =
             [\<lparr>sc_id = js ''100'', sc_title = js ''General'', rules = []\<rparr>]\<rparr>]"
  by (simp add: ev)


text \<open>
  Claim C4, amended. However often a Category header is fed, the tree holds exactly one
  category of its id. A Subcategory header gives exactly one subcategory of its id among
  the subcategories of the category that is current where it is fed (fed again under
  another category, it makes one there too). Feeding a header again, a Category header
  whose id is in the tree or a Subcategory header whose id is in the current category,
  leaves the tree as it is. A Subcategory line that follows a Category header, with no
  other Category line in between, is attached to the one category of that id; a Rule
  line that follows a Subcategory header, with no Category or Subcategory line in
  between, is attached to the subcategory of that id in the current category.
\<close>

theorem duplicate_headers_one_entity:
  "(parseRules lines = Inr t \<and> l \<in> set lines \<and> classify l = CategoryK i g \<longrightarrow>
      length (filter (\<lambda>c. c_id c = i) t) = 1)
   \<and> (parseRules (pre @ l # post) = Inr t \<and> classify l = SubcategoryK i g \<longrightarrow>
        (\<exists>ci c. currentCategory pre = Some ci \<and> filter (\<lambda>c. c_id c = ci) t = [c]
           \<and> length (filter (\<lambda>s. sc_id s = i) (subcategories c)) = 1))
   \<and> (parseRules pre = Inr t \<and> classify l = CategoryK i g \<and> i \<in> c_id ` set t \<longrightarrow>
        parseRules (pre @ [l]) = Inr t)
   \<and> (parseRules pre = Inr t \<and> classify l = SubcategoryK i g
        \<and> currentCategory pre = Some ci \<and> hasSubcategory t ci i \<longrightarrow>
        parseRules (pre @ [l]) = Inr t)
   \<and> (parseRules (pre @ l # mid @ s # post) = Inr t \<and> classify l = CategoryK i g
        \<and> list_all (\<lambda>m. \<not> categoryLineK m) mid \<and> classify s = SubcategoryK j g' \<longrightarrow>
        hasSubcategory t i j)
   \<and> (parseRules (pre @ l # mid @ s # post) = Inr t \<and> classify l = SubcategoryK i g
        \<and> list_all (\<lambda>m. \<not> headerLineK m) mid \<and> classify s = RuleK j g' \<longrightarrow>
        (\<exists>ci. currentCategory pre = Some ci \<and> hasRule t ci i j g'))"
proof (intro conjI impI)
  assume "parseRules lines = Inr t \<and> l \<in> set lines \<and> classify l = CategoryK i g"
  then show "length (filter (\<lambda>c. c_id c = i) t) = 1" using category_once by blast
next
  assume "parseRules (pre @ l # post) = Inr t \<and> classify l = SubcategoryK i g"
  then show "\<exists>ci c. currentCategory pre = Some ci \<and> filter (\<lambda>c. c_id c = ci) t = [c]
           \<and> length (filter (\<lambda>s. sc_id s = i) (subcategories c)) = 1"
    using subcategory_once by blast
next
  assume "parseRules pre = Inr t \<and> classify l = CategoryK i g \<and> i \<in> c_id ` set t"
  then show "parseRules (pre @ [l]) = Inr t" using category_again by blast
next
  assume "parseRules pre = Inr t \<and> classify l = SubcategoryK i g
        \<and> currentCategory pre = Some ci \<and> hasSubcategory t ci i"
  then show "parseRules (pre @ [l]) = Inr t" using subcategory_again by blast
next
  assume "parseRules (pre @ l # mid @ s # post) = Inr t \<and> classify l = CategoryK i g
        \<and> list_all (\<lambda>m. \<not> categoryLineK m) mid \<and> classify s = SubcategoryK j g'"
  then show "hasSubcategory t i j" using subcategory_after_category by blast
next
  assume "parseRules (pre @ l # mid @ s # post) = Inr t \<and> classify l = SubcategoryK i g
        \<and> list_all (\<lambda>m. \<not> headerLineK m) mid \<and> classify s = RuleK j g'"
  then show "\<exists>ci. currentCategory pre = Some ci \<and> hasRule t ci i j g'"
    using rule_after_subcategory by blast
qed


theorem duplicate_headers_one_entity_witness:
  "parseRules [js ''1. Game Concepts'', js ''100. General'', js ''2. Parts of a Card'',
       js ''200. Names'', js ''1. Game Concepts'', js ''101. The Golden Rules'',
       js ''100. General'', js ''100.1. Text of a rule.'']
     = Inr [\<lparr>c_id = js ''1'', c_title = js ''Game Concepts'', subcategories =
             [\<lparr>sc_id = js ''100'', sc_title = js ''General'', rules =
                [\<lparr>r_id = js ''100.1'', r_rule = js ''Text of a rule.'', subrules = []\<rparr>]\<rparr>,
              \<lparr>sc_id = js ''101'', sc_title = js ''The Golden Rules'', rules = []\<rparr>]\<rparr>,
            \<lparr>c_id = js ''2'', c_title = js ''Parts of a Card'', subcategories =
             [\<lparr>sc_id = js ''200'', sc_title = js ''Names'', rules = []\<rparr>]\<rparr>]
   \<and> classify (js ''1. Game Concepts'') = CategoryK (js ''1'') (js '' Game Concepts'')
   \<and> classify (js ''100. General'') = SubcategoryK (js ''100'') (js '' General'')
   \<and> length (filter (\<lambda>c. c_id c = js ''1'')
        [\<lparr>c_id = js ''1'', c_title = js ''Game Concepts'', subcategories =
             [\<lparr>sc_id = js ''100'', sc_title = js ''General'', rules =
                [\<lparr>r_id = js ''100.1'', r_rule = js ''Text of a rule.'', subrules = []\<rparr>]\<rparr>,
              \<lparr>sc_id = js ''101'', sc_title = js ''The Golden Rules'', rules = []\<rparr>]\<rparr>,
            \<lparr>c_id = js ''2'', c_title = js ''Parts of a Card'', subcategories =
             [\<lparr>sc_id = js ''200'', sc_title = js ''Names'', rules = []\<rparr>]\<rparr>]) = 1
   \<and> parseRules ([js ''1. Game Concepts'', js ''100. General'', js ''2. Parts of a Card'',
          js ''200. Names''] @ [js ''1. Game Concepts''])
       = parseRules [js ''1. Game Concepts'', js ''100. General'', js ''2. Parts of a Card'',
          js ''200. Names'']
   \<and> parseRules ([js ''1. Game Concepts'', js ''100. General'', js ''2. Parts of a Card'',
          js ''200. Names'', js ''1. Game Concepts'', js ''101. The Golden Rules'']
          @ [js ''100. General''])
       = parseRules [js ''1. Game Concepts'', js ''100. General'', js ''2. Parts of a Card'',
          js ''200. Names'', js ''1. Game Concepts'', js ''101. The Golden Rules'']
   \<and> hasSubcategory
        [\<lparr>c_id = js ''1'', c_title = js ''Game Concepts'', subcategories =
             [\<lparr>sc_id = js ''100'', sc_title = js ''General'', rules =
                [\<lparr>r_id = js ''100.1'', r_rule = js ''Text of a rule.'', subrules = []\<rparr>]\<rparr>,
              \<lparr>sc_id = js ''101'', sc_title = js ''The Golden Rules'', rules = []\<rparr>]\<rparr>,
            \<lparr>c_id = js ''2'', c_title = js ''Parts of a Card'', subcategories =
             [\<lparr>sc_id = js ''200'', sc_title = js ''Names'', rules = []\<rparr>]\<rparr>]
        (js ''1'') (js ''101'')
   \<and> hasRule
        [\<lparr>c_id = js ''1'', c_title = js ''Game Concepts'', subcategories =
             [\<lparr>sc_id = js ''100'', sc_title = js ''General'', rules =
                [\<lparr>r_id = js ''100.1'', r_rule = js ''Text of a rule.'', subrules = []\<rparr>]\<rparr>,
              \<lparr>sc_id = js ''101'', sc_title = js ''The Golden Rules'', rules = []\<rparr>]\<rparr>,
            \<lparr>c_id = js ''2'', c_title = js ''Parts of a Card'', subcategories =
             [\<lparr>sc_id = js ''200'', sc_title = js ''Names'', rules = []\<rparr>]\<rparr>]
        (js ''1'') (js ''100'') (js ''100.1'') (js ''Text of a rule.'')"
proof -
  let ?a = "js ''1. Game Concepts''"
  let ?b = "js ''100. General''"
  let ?c = "js ''2. Parts of a Card''"
  let ?d = "js ''200. Names''"
  let ?e = "js ''101. The Golden Rules''"
  let ?r = "js ''100.1. Text of a rule.''"
  let ?T = "[\<lparr>c_id = js ''1'', c_title = js ''Game Concepts'', subcategories =
             [\<lparr>sc_id = js ''100'', sc_title = js ''General'', rules =
                [\<lparr>r_id = js ''100.1'', r_rule = js ''Text of a rule.'', subrules = []\<rparr>]\<rparr>,
              \<lparr>sc_id = js ''101'', sc_title = js ''The Golden Rules'', rules = []\<rparr>]\<rparr>,
            \<lparr>c_id = js ''2'', c_title = js ''Parts of a Card'', subcategories =
             [\<lparr>sc_id = js ''200'', sc_title = js ''Names'', rules = []\<rparr>]\<rparr>]"
  let ?T4 = "[\<lparr>c_id = js ''1'', c_title = js ''Game Concepts'', subcategories =
             [\<lparr>sc_id = js ''100'', sc_title = js ''General'', rules = []\<rparr>]\<rparr>,
            \<lparr>c_id = js ''2'', c_title = js ''Parts of a Card'', subcategories =
             [\<lparr>sc_id = js ''200'', sc_title = js ''Names'', rules = []\<rparr>]\<rparr>]"
  let ?T6 = "[\<lparr>c_id = js ''1'', c_title = js ''Game Concepts'', subcategories =
             [\<lparr>sc_id = js ''100'', sc_title = js ''General'', rules = []\<rparr>,
              \<lparr>sc_id = js ''101'', sc_title = js ''The Golden Rules'', rules = []\<rparr>]\<rparr>,
            \<lparr>c_id = js ''2'', c_title = js ''Parts of a Card'', subcategories =
             [\<lparr>sc_id = js ''200'', sc_title = js ''Names'', rules = []\<rparr>]\<rparr>]"
  have p: "parseRules [?a, ?b, ?c, ?d, ?a, ?e, ?b, ?r] = Inr ?T" by (simp add: ev)
  have p4: "parseRules [?a, ?b, ?c, ?d] = Inr ?T4" by (simp add: ev)
  have p6: "parseRules [?a, ?b, ?c, ?d, ?a, ?e] = Inr ?T6" by (simp add: ev)
  have ka: "classify ?a = CategoryK (js ''1'') (js '' Game Concepts'')"
    and kb: "classify ?b = SubcategoryK (js ''100'') (js '' General'')"
    and kc: "classify ?c = CategoryK (js ''2'') (js '' Parts of a Card'')"
    and kd: "classify ?d = SubcategoryK (js ''200'') (js '' Names'')"
    and ke: "classify ?e = SubcategoryK (js ''101'') (js '' The Golden Rules'')"
    and kr: "classify ?r = RuleK (js ''100.1'') (js ''Text of a rule.'')"
    by (simp_all add: evr)
  have c6: "currentCategory [?a, ?b, ?c, ?d, ?a, ?e] = Some (js ''1'')"
    unfolding currentCategory_def cursorIdsAfter_def by (simp add: ka kb kc kd ke)
  have m: "?a \<in> set [?a, ?b, ?c, ?d, ?a, ?e, ?b, ?r]" by simp
  from duplicate_headers_one_entity[where lines = "[?a, ?b, ?c, ?d, ?a, ?e, ?b, ?r]" and t = ?T
      and l = ?a and i = "js ''1''" and g = "js '' Game Concepts''"] p m ka
  have 1: "length (filter (\<lambda>c. c_id c = js ''1'') ?T) = 1" by blast
  have i4: "js ''1'' \<in> c_id ` set ?T4" by simp
  from duplicate_headers_one_entity[where pre = "[?a, ?b, ?c, ?d]" and t = ?T4
      and l = ?a and i = "js ''1''" and g = "js '' Game Concepts''"] p4 ka i4
  have 3: "parseRules ([?a, ?b, ?c, ?d] @ [?a]) = parseRules [?a, ?b, ?c, ?d]" by simp
  have h6: "hasSubcategory ?T6 (js ''1'') (js ''100'')" by (simp add: hasSubcategory_def)
  from duplicate_headers_one_entity[where pre = "[?a, ?b, ?c, ?d, ?a, ?e]" and t = ?T6
      and l = ?b and i = "js ''100''" and g = "js '' General''" and ci = "js ''1''"] p6 kb c6 h6
  have 4: "parseRules ([?a, ?b, ?c, ?d, ?a, ?e] @ [?b]) = parseRules [?a, ?b, ?c, ?d, ?a, ?e]"
    by simp
  have p5: "parseRules ([?a, ?b, ?c, ?d] @ ?a # [] @ ?e # [?b, ?r]) = Inr ?T" using p by simp
  from duplicate_headers_one_entity[where pre = "[?a, ?b, ?c, ?d]" and l = ?a and mid = "[]"
      and s = ?e and post = "[?b, ?r]" and t = ?T and i = "js ''1''" and g = "js '' Game Concepts''"
      and j = "js ''101''" and g' = "js '' The Golden Rules''"] p5 ka ke
  have 5: "hasSubcategory ?T (js ''1'') (js ''101'')" by simp
  have p7: "parseRules ([?a, ?b, ?c, ?d, ?a, ?e] @ ?b # [] @ ?r # []) = Inr ?T" using p by simp
  from duplicate_headers_one_entity[where pre = "[?a, ?b, ?c, ?d, ?a, ?e]" and l = ?b and mid = "[]"
      and s = ?r and post = "[]" and t = ?T and i = "js ''100''" and g = "js '' General''"
      and j = "js ''100.1''" and g' = "js ''Text of a rule.''"] p7 kb kr c6
  have 6: "hasRule ?T (js ''1'') (js ''100'') (js ''100.1'') (js ''Text of a rule.'')" by auto
  from p ka kb 1 3 4 5 6 show ?thesis by (intro conjI)
qed

end
